theory Spec2Isabelle
  imports Complex_Main "HOL-Library.Sublist" "HOL-Library.Multiset"
begin

section \<open>Data model\<close>

text \<open>
  The EEG processor works on JavaScript numbers. Sample values and times are modelled as
  \<open>real\<close>, counters and indices as \<open>nat\<close>. The sample rate is a natural number (the
  processor always passes 250), so \<open>Math.floor(sampleRate * 0.1)\<close> is \<open>sampleRate div 10\<close>.
  The field \<open>end\<close> of an event is called \<open>endt\<close>, and \<open>type\<close> is called \<open>etype\<close>.

  The arithmetic of the model is exact, that of the program is IEEE double arithmetic,
  which rounds every sum, product and quotient. The two agree wherever the operands and
  the result are doubles of moderate size (integers, halves, quarters), as on the sample
  recordings below. Where a comparison sits exactly on a rounding boundary they can
  differ: the threshold tests of the detectors (\<open>variance > 100\<close>), the join test of the
  clusterer (\<open>event.start \<le> clusterEnd + 10\<close>) and the rounding of the confidence. The
  statements below either do not depend on such a boundary or carry a margin for it.
\<close>

record event =
  start :: real
  endt :: real
  etype :: string
  amplitude :: real
  frequency :: real

record eeg_channel =
  name :: string
  data :: "real list"
  events :: "event list"
  voltage :: real

section \<open>The sliding-window loop of the detectors\<close>

text \<open>\<open>data.slice(i, j)\<close> for indices \<open>0 \<le> i \<le> j\<close>.\<close>

definition slice :: "'a list \<Rightarrow> nat \<Rightarrow> nat \<Rightarrow> 'a list" where
  "slice xs i j = take (j - i) (drop i xs)"

text \<open>
  All three detectors run the loop
  \<^verbatim>\<open>for (let i = 0; i < data.length - windowSize; i += stepSize) { ... }\<close>
  over a state that the body updates (the events array, and for the IED detector the
  number of random draws made so far). The loop does not return when \<open>stepSize\<close> is 0 and
  the guard holds, so it is a partial function: \<open>None\<close> is "does not return".
\<close>

partial_function (option) scan_loop ::
  "(nat \<Rightarrow> 's \<Rightarrow> 's) \<Rightarrow> nat \<Rightarrow> nat \<Rightarrow> nat \<Rightarrow> nat \<Rightarrow> 's \<Rightarrow> 's option" where
  "scan_loop body len windowSize stepSize i st =
     (if int i < int len - int windowSize
      then scan_loop body len windowSize stepSize (i + stepSize) (body i st)
      else Some st)"

text \<open>The start indices the loop visits from \<open>i\<close> on, when the step is positive.\<close>

function scan_starts :: "nat \<Rightarrow> nat \<Rightarrow> nat \<Rightarrow> nat \<Rightarrow> nat list" where
  "scan_starts len windowSize stepSize i =
     (if 0 < stepSize \<and> i + windowSize < len
      then i # scan_starts len windowSize stepSize (i + stepSize)
      else [])"
  by pat_completeness auto
termination
  by (relation "measure (\<lambda>(len, windowSize, stepSize, i). len - i)") auto

declare scan_starts.simps [simp del]

text \<open>The windows \<open>windowData = data.slice(i, i + windowSize)\<close> that the loop hands to its body,
  in order.\<close>

definition scan_windows :: "real list \<Rightarrow> nat \<Rightarrow> nat \<Rightarrow> real list list option" where
  "scan_windows dat windowSize stepSize =
     scan_loop (\<lambda>i ws. ws @ [slice dat i (i + windowSize)]) (length dat) windowSize stepSize 0 []"

text \<open>The windows as the specification words them: the slices \<open>[i, i+W)\<close> for
  \<open>i = 0, S, 2S, \<dots>\<close> while \<open>i + W \<le> length\<close>.\<close>

definition spec_windows :: "real list \<Rightarrow> nat \<Rightarrow> nat \<Rightarrow> real list list" where
  "spec_windows dat W S =
     map (\<lambda>i. slice dat i (i + W))
       (filter (\<lambda>i. i + W \<le> length dat) (map (\<lambda>k. k * S) [0..<Suc (length dat)]))"

text \<open>The same with the strict bound \<open>i + W < length\<close> of the loop guard.\<close>

definition strict_windows :: "real list \<Rightarrow> nat \<Rightarrow> nat \<Rightarrow> real list list" where
  "strict_windows dat W S =
     map (\<lambda>i. slice dat i (i + W))
       (filter (\<lambda>i. i + W < length dat) (map (\<lambda>k. k * S) [0..<length dat]))"

section \<open>The three detectors\<close>

text \<open>
  \<open>events.some(event => (startTime >= event.start && startTime <= event.end) ||
  (endTime >= event.start && endTime <= event.end))\<close>: the test each detector makes before
  it pushes a candidate.
\<close>

definition overlapping :: "event list \<Rightarrow> real \<Rightarrow> real \<Rightarrow> bool" where
  "overlapping evs startTime endTime =
     list_ex (\<lambda>event. (startTime \<ge> start event \<and> startTime \<le> endt event) \<or>
                       (endTime \<ge> start event \<and> endTime \<le> endt event)) evs"

text \<open>Sign changes between consecutive samples, 0 counting as non-negative.\<close>

fun zeroCrossings :: "real list \<Rightarrow> nat" where
  "zeroCrossings (a # b # xs) =
     (if (a < 0 \<and> b \<ge> 0) \<or> (a \<ge> 0 \<and> b < 0) then 1 else 0) + zeroCrossings (b # xs)"
| "zeroCrossings _ = 0"

text \<open>
  \<open>maxVal - minVal\<close> of a window. The source starts the two folds at \<open>-Infinity\<close> and
  \<open>+Infinity\<close>; on a non-empty window that is the fold from the first sample. An empty
  window (\<open>windowSize = 0\<close>) is never classified, so the value given here for it is not used.
\<close>

definition peakToPeak :: "real list \<Rightarrow> real" where
  "peakToPeak w = (case w of [] \<Rightarrow> 0 | x # xs \<Rightarrow> fold max xs x - fold min xs x)"

text \<open>
  The body of the HFO loop for the window at \<open>i\<close>. The sums, the mean and the variance are
  exact here and rounded in the program, so a window whose variance is within the rounding
  error of 100 can be classified differently by the two.
\<close>

definition hfo_window :: "nat \<Rightarrow> nat \<Rightarrow> real list \<Rightarrow> nat \<Rightarrow> event list \<Rightarrow> event list" where
  "hfo_window sampleRate windowSize windowData i evs =
     (let estimatedFreq = (real (zeroCrossings windowData) / 2) * (real sampleRate / real windowSize);
          sm = sum_list windowData;
          sumSquared = sum_list (map (\<lambda>x. x * x) windowData);
          mean = sm / real (length windowData);
          variance = sumSquared / real (length windowData) - mean * mean;
          amp = peakToPeak windowData
      in if estimatedFreq > 80 \<and> variance > 100 then
           (let startTime = real i / real sampleRate;
                endTime = real (i + windowSize) / real sampleRate
            in if \<not> overlapping evs startTime endTime
               then evs @ [\<lparr>start = startTime, endt = endTime,
                             etype = ''HFO (High Frequency Oscillation)'',
                             amplitude = amp, frequency = estimatedFreq\<rparr>]
               else evs)
         else evs)"

definition detectHFOs :: "real list \<Rightarrow> event list \<Rightarrow> nat \<Rightarrow> event list option" where
  "detectHFOs dat evs sampleRate =
     (let windowSize = sampleRate div 10; stepSize = sampleRate div 20
      in scan_loop (\<lambda>i. hfo_window sampleRate windowSize (slice dat i (i + windowSize)) i)
           (length dat) windowSize stepSize 0 evs)"

text \<open>The first position of the largest absolute value: the loop over \<open>j\<close> that keeps
  \<open>(maxAmp, maxPos)\<close> and replaces them on a strictly larger \<open>Math.abs\<close>.\<close>

fun maxAbs :: "real list \<Rightarrow> nat \<Rightarrow> real \<times> nat \<Rightarrow> real \<times> nat" where
  "maxAbs [] j acc = acc"
| "maxAbs (x # xs) j (maxAmp, maxPos) =
     maxAbs xs (j + 1) (if \<bar>x\<bar> > maxAmp then (\<bar>x\<bar>, j) else (maxAmp, maxPos))"

text \<open>\<open>slopeBefore\<close> and \<open>slopeAfter\<close>, both 0 unless
  \<open>maxPos > 5 && maxPos < windowData.length - 5\<close>.\<close>

definition ied_slopes :: "real list \<Rightarrow> nat \<Rightarrow> real \<times> real" where
  "ied_slopes windowData maxPos =
     (if maxPos > 5 \<and> int maxPos < int (length windowData) - 5
      then ((windowData ! maxPos - windowData ! (maxPos - 5)) / 5,
            (windowData ! maxPos - windowData ! (maxPos + 5)) / 5)
      else (0, 0))"

definition ied_classify :: "real \<Rightarrow> real \<Rightarrow> real \<Rightarrow> bool" where
  "ied_classify maxAmp slopeBefore slopeAfter =
     (maxAmp > 50 \<and> \<bar>slopeBefore\<bar> > 10 \<and> \<bar>slopeAfter\<bar> > 10 \<and> sgn slopeBefore \<noteq> sgn slopeAfter)"

text \<open>
  One iteration of the IED loop. \<open>Math.random()\<close> is the stream \<open>rnd\<close>; the state carries
  the number \<open>n\<close> of draws made so far, and every window makes one draw for
  \<open>estimatedFreq\<close>, classified or not.
\<close>

definition ied_window ::
  "(nat \<Rightarrow> real) \<Rightarrow> nat \<Rightarrow> nat \<Rightarrow> real list \<Rightarrow> nat \<Rightarrow> event list \<times> nat \<Rightarrow> event list \<times> nat" where
  "ied_window rnd sampleRate windowSize windowData i st =
     (let (evs, n) = st;
          (maxAmp, maxPos) = maxAbs windowData 0 (0, 0);
          (slopeBefore, slopeAfter) = ied_slopes windowData maxPos;
          estimatedFreq = 8 + rnd n * 12
      in if ied_classify maxAmp slopeBefore slopeAfter then
           (let startTime = real i / real sampleRate;
                endTime = real (i + windowSize) / real sampleRate
            in if \<not> overlapping evs startTime endTime
               then (evs @ [\<lparr>start = startTime, endt = endTime,
                              etype = ''IED (Intractal Epileptiform Discharge)'',
                              amplitude = maxAmp, frequency = estimatedFreq\<rparr>], n + 1)
               else (evs, n + 1))
         else (evs, n + 1))"

definition detectIEDs ::
  "(nat \<Rightarrow> real) \<Rightarrow> real list \<Rightarrow> event list \<times> nat \<Rightarrow> nat \<Rightarrow> (event list \<times> nat) option" where
  "detectIEDs rnd dat st sampleRate =
     (let windowSize = sampleRate div 5; stepSize = sampleRate div 10
      in scan_loop (\<lambda>i. ied_window rnd sampleRate windowSize (slice dat i (i + windowSize)) i)
           (length dat) windowSize stepSize 0 st)"

text \<open>The indices \<open>j\<close> with \<open>1 \<le> j < length - 1\<close> whose sample exceeds both neighbours
  and 20; \<open>peaks_from j\<close> looks at the sample at position \<open>j\<close>, the second of the list.\<close>

fun peaks_from :: "nat \<Rightarrow> real list \<Rightarrow> nat list" where
  "peaks_from j (a # b # c # xs) =
     (if b > a \<and> b > c \<and> b > 20 then [j] else []) @ peaks_from (j + 1) (b # c # xs)"
| "peaks_from j _ = []"

definition intervals_of :: "nat list \<Rightarrow> real list" where
  "intervals_of peaks = map (\<lambda>(p, q). real q - real p) (zip peaks (tl peaks))"

definition rhythmic_window :: "nat \<Rightarrow> nat \<Rightarrow> real list \<Rightarrow> nat \<Rightarrow> event list \<Rightarrow> event list" where
  "rhythmic_window sampleRate windowSize windowData i evs =
     (let intervals = intervals_of (peaks_from 1 windowData)
      in if length intervals \<ge> 3 then
           (let meanInterval = sum_list intervals / real (length intervals);
                sumDiff = sum_list (map (\<lambda>x. (x - meanInterval)\<^sup>2) intervals);
                intervalVariance = sumDiff / real (length intervals);
                intervalCV = sqrt intervalVariance / meanInterval;
                estimatedFreq = real sampleRate / meanInterval;
                amp = peakToPeak windowData
            in if intervalCV < 3 / 10 \<and> meanInterval > 10 \<and> meanInterval < 100 then
                 (let startTime = real i / real sampleRate;
                      endTime = real (i + windowSize) / real sampleRate
                  in if \<not> overlapping evs startTime endTime
                     then evs @ [\<lparr>start = startTime, endt = endTime,
                                   etype = ''Rhythmic Discharge'',
                                   amplitude = amp, frequency = estimatedFreq\<rparr>]
                     else evs)
               else evs)
         else evs)"

definition detectRhythmicDischarges :: "real list \<Rightarrow> event list \<Rightarrow> nat \<Rightarrow> event list option" where
  "detectRhythmicDischarges dat evs sampleRate =
     (let windowSize = sampleRate * 3; stepSize = sampleRate * 1
      in scan_loop (\<lambda>i. rhythmic_window sampleRate windowSize (slice dat i (i + windowSize)) i)
           (length dat) windowSize stepSize 0 evs)"

text \<open>
  The body of \<open>channels.forEach\<close> in \<open>detectPatterns\<close>: the three detectors in the order
  HFO, IED, Rhythmic on the channel's own events array, at 250 Hz. The result is the
  channel with its events and the number of random draws made so far.
\<close>

definition detectChannel ::
  "(nat \<Rightarrow> real) \<Rightarrow> eeg_channel \<Rightarrow> nat \<Rightarrow> (eeg_channel \<times> nat) option" where
  "detectChannel rnd ch n =
     (case detectHFOs (data ch) (events ch) 250 of None \<Rightarrow> None
      | Some e1 \<Rightarrow>
     (case detectIEDs rnd (data ch) (e1, n) 250 of None \<Rightarrow> None
      | Some (e2, n') \<Rightarrow>
     (case detectRhythmicDischarges (data ch) e2 250 of None \<Rightarrow> None
      | Some e3 \<Rightarrow> Some (ch\<lparr>events := e3\<rparr>, n'))))"

fun detectPatterns ::
  "(nat \<Rightarrow> real) \<Rightarrow> eeg_channel list \<Rightarrow> nat \<Rightarrow> (eeg_channel list \<times> nat) option" where
  "detectPatterns rnd [] n = Some ([], n)"
| "detectPatterns rnd (ch # chs) n =
     (case detectChannel rnd ch n of None \<Rightarrow> None
      | Some (ch', n') \<Rightarrow>
     (case detectPatterns rnd chs n' of None \<Rightarrow> None
      | Some (chs', n'') \<Rightarrow> Some (ch' # chs', n'')))"

text \<open>Two time ranges intersect, bounds included.\<close>

definition intersects :: "event \<Rightarrow> event \<Rightarrow> bool" where
  "intersects a b = (start a \<le> endt b \<and> start b \<le> endt a)"

section \<open>JavaScript numbers where a division by zero can occur\<close>

text \<open>
  The clusterer divides by a cluster's duration, by its event total and by the number of
  channels. An IEEE division by zero does not fail: it gives an infinity or \<open>NaN\<close>, which
  the later arithmetic carries on. These values are modelled by \<open>jsnum\<close>, for finite
  operands (signed zeros are not distinguished).
\<close>

datatype jsnum = Num real | PosInf | NegInf | NaN

definition js_div :: "real \<Rightarrow> real \<Rightarrow> jsnum" where
  "js_div x y =
     (if y \<noteq> 0 then Num (x / y)
      else if x > 0 then PosInf else if x < 0 then NegInf else NaN)"

text \<open>Multiplication by a finite number.\<close>

fun js_times :: "jsnum \<Rightarrow> real \<Rightarrow> jsnum" where
  "js_times (Num x) c = Num (x * c)"
| "js_times PosInf c = (if c > 0 then PosInf else if c < 0 then NegInf else NaN)"
| "js_times NegInf c = (if c > 0 then NegInf else if c < 0 then PosInf else NaN)"
| "js_times NaN c = NaN"

fun js_plus :: "jsnum \<Rightarrow> jsnum \<Rightarrow> jsnum" where
  "js_plus (Num x) (Num y) = Num (x + y)"
| "js_plus NaN _ = NaN"
| "js_plus _ NaN = NaN"
| "js_plus PosInf NegInf = NaN"
| "js_plus NegInf PosInf = NaN"
| "js_plus PosInf _ = PosInf"
| "js_plus _ PosInf = PosInf"
| "js_plus NegInf _ = NegInf"
| "js_plus _ NegInf = NegInf"

text \<open>\<open>b - a\<close> of two values.\<close>

fun js_minus :: "jsnum \<Rightarrow> jsnum \<Rightarrow> jsnum" where
  "js_minus (Num x) (Num y) = Num (x - y)"
| "js_minus NaN _ = NaN"
| "js_minus _ NaN = NaN"
| "js_minus PosInf PosInf = NaN"
| "js_minus NegInf NegInf = NaN"
| "js_minus PosInf _ = PosInf"
| "js_minus _ NegInf = PosInf"
| "js_minus NegInf _ = NegInf"
| "js_minus _ PosInf = NegInf"

text \<open>\<open>Math.round\<close> rounds to the nearest integer, halves upwards.\<close>

fun js_round :: "jsnum \<Rightarrow> jsnum" where
  "js_round (Num x) = Num (of_int \<lfloor>x + 1 / 2\<rfloor>)"
| "js_round v = v"

text \<open>\<open>Math.min(c, v)\<close> for a finite \<open>c\<close>.\<close>

fun js_min :: "real \<Rightarrow> jsnum \<Rightarrow> jsnum" where
  "js_min c (Num x) = Num (min c x)"
| "js_min c PosInf = Num c"
| "js_min c NegInf = NegInf"
| "js_min c NaN = NaN"

text \<open>\<open>v > c\<close> for a finite \<open>c\<close>; a comparison with \<open>NaN\<close> is false.\<close>

fun js_gt :: "jsnum \<Rightarrow> real \<Rightarrow> bool" where
  "js_gt (Num x) c = (x > c)"
| "js_gt PosInf c = True"
| "js_gt NegInf c = False"
| "js_gt NaN c = False"

section \<open>The clusterer\<close>

text \<open>An event of the pool: the event's own fields and the name of its channel.\<close>

record pooled_event = event +
  channel :: string

definition pool :: "string \<Rightarrow> event \<Rightarrow> pooled_event" where
  "pool n e = \<lparr>start = start e, endt = endt e, etype = etype e,
               amplitude = amplitude e, frequency = frequency e, channel = n\<rparr>"

definition allEvents :: "eeg_channel list \<Rightarrow> pooled_event list" where
  "allEvents channels = concat (map (\<lambda>ch. map (pool (name ch)) (events ch)) channels)"

text \<open>
  \<open>Array.prototype.sort\<close> with a comparator is stable. It is modelled as the insertion
  sort that puts \<open>x\<close> before the first \<open>y\<close> with \<open>cmp x y \<le> 0\<close>, inserting from the right.
  For a comparator that is a consistent order this is the order every stable sort gives.
  The comparator of the final sort is not consistent when a confidence is \<open>NaN\<close>; the
  order of the regions is then the one of the engine's own algorithm, which this sort does
  not model. Which regions are returned, and their fields, do not depend on the order.
\<close>

fun insort_cmp :: "('a \<Rightarrow> 'a \<Rightarrow> real) \<Rightarrow> 'a \<Rightarrow> 'a list \<Rightarrow> 'a list" where
  "insort_cmp cmp x [] = [x]"
| "insort_cmp cmp x (y # ys) = (if cmp x y \<le> 0 then x # y # ys else y # insort_cmp cmp x ys)"

definition sort_cmp :: "('a \<Rightarrow> 'a \<Rightarrow> real) \<Rightarrow> 'a list \<Rightarrow> 'a list" where
  "sort_cmp cmp xs = foldr (insort_cmp cmp) xs []"

definition sortedEvents :: "eeg_channel list \<Rightarrow> pooled_event list" where
  "sortedEvents channels = sort_cmp (\<lambda>a b. start a - start b) (allEvents channels)"

record cluster =
  cl_events :: "pooled_event list"
  cl_start :: real
  cl_end :: real

text \<open>The variables of the clustering pass: \<open>clusters\<close>, \<open>currentCluster\<close>,
  \<open>clusterStart\<close>, \<open>clusterEnd\<close>.\<close>

record cluster_state =
  clusters :: "cluster list"
  currentCluster :: "pooled_event list"
  clusterStart :: real
  clusterEnd :: real

definition close_cluster :: "cluster_state \<Rightarrow> cluster list" where
  "close_cluster st =
     (if length (currentCluster st) > 0
      then clusters st @ [\<lparr>cl_events = currentCluster st, cl_start = clusterStart st,
                            cl_end = clusterEnd st\<rparr>]
      else clusters st)"

text \<open>The callback of \<open>allEvents.forEach((event, index) => ...)\<close>. The sum
  \<open>clusterEnd + 10\<close> is exact here; the program rounds it to a double, which differs from it
  by at most the fraction \<open>2^-53\<close> of the sum. An event that starts above the exact sum by
  less than that can join the cluster in the program and not here.\<close>

definition cluster_step :: "pooled_event \<times> nat \<Rightarrow> cluster_state \<Rightarrow> cluster_state" where
  "cluster_step ei st =
     (let (ev, index) = ei in
      if index = 0 then
        st\<lparr>currentCluster := [ev], clusterStart := start ev, clusterEnd := endt ev\<rparr>
      else if start ev \<le> clusterEnd st + 10 then
        st\<lparr>currentCluster := currentCluster st @ [ev],
            clusterEnd := max (clusterEnd st) (endt ev)\<rparr>
      else
        \<lparr>clusters = close_cluster st, currentCluster = [ev],
         clusterStart = start ev, clusterEnd = endt ev\<rparr>)"

definition clusterEvents :: "pooled_event list \<Rightarrow> cluster list" where
  "clusterEvents evs =
     close_cluster
       (fold cluster_step (zip evs [0..<length evs])
          \<lparr>clusters = [], currentCluster = [], clusterStart = 0, clusterEnd = 0\<rparr>)"

text \<open>
  The clustering as the specification words it, on the sorted events: the current cluster
  \<open>cur\<close> with its start \<open>cs\<close> and its \<open>clusterEnd\<close> \<open>ce\<close>; the next event joins it if
  \<open>event.start \<le> clusterEnd + 10\<close>, and \<open>clusterEnd\<close> becomes \<open>max(clusterEnd, event.end)\<close>;
  otherwise the current cluster is closed and a new one starts with that event.
\<close>

fun greedy_from :: "pooled_event list \<Rightarrow> real \<Rightarrow> real \<Rightarrow> pooled_event list \<Rightarrow> cluster list" where
  "greedy_from cur cs ce [] = [\<lparr>cl_events = cur, cl_start = cs, cl_end = ce\<rparr>]"
| "greedy_from cur cs ce (e # es) =
     (if start e \<le> ce + 10 then greedy_from (cur @ [e]) cs (max ce (endt e)) es
      else \<lparr>cl_events = cur, cl_start = cs, cl_end = ce\<rparr> # greedy_from [e] (start e) (endt e) es)"

definition greedy_clusters :: "pooled_event list \<Rightarrow> cluster list" where
  "greedy_clusters evs =
     (case evs of [] \<Rightarrow> [] | e # es \<Rightarrow> greedy_from [e] (start e) (endt e) es)"

text \<open>\<open>s.includes(sub)\<close>: \<open>sub\<close> occurs in \<open>s\<close> as a contiguous substring.\<close>

fun str_includes :: "string \<Rightarrow> string \<Rightarrow> bool" where
  "str_includes [] sub = (sub = [])"
| "str_includes (c # cs) sub = (prefix sub (c # cs) \<or> str_includes cs sub)"

text \<open>A type label that \<open>count_event\<close> counts.\<close>

definition recognised :: "string \<Rightarrow> bool" where
  "recognised t = (str_includes t ''HFO'' \<or> str_includes t ''IED'' \<or> str_includes t ''Rhythmic'')"

datatype severity = Low | Medium | High

record event_count =
  hfo :: nat
  ied :: nat
  rhythmic :: nat

record ictal_region =
  rg_start :: real
  rg_end :: real
  rg_channels :: "string list"
  confidence :: jsnum
  eventCount :: event_count
  severity :: severity

text \<open>
  The callback of \<open>cluster.events.forEach\<close>: it counts the event under the first of the
  labels HFO, IED, Rhythmic that its type includes (under none if it includes none) and
  adds its channel to the set. A JavaScript \<open>Set\<close> keeps insertion order, so the set is a
  list without repetitions.
\<close>

definition count_event :: "pooled_event \<Rightarrow> event_count \<times> string list \<Rightarrow> event_count \<times> string list" where
  "count_event ev st =
     (let (ec, channelSet) = st;
          ec' = (if str_includes (etype ev) ''HFO'' then ec\<lparr>hfo := hfo ec + 1\<rparr>
                 else if str_includes (etype ev) ''IED'' then ec\<lparr>ied := ied ec + 1\<rparr>
                 else if str_includes (etype ev) ''Rhythmic'' then ec\<lparr>rhythmic := rhythmic ec + 1\<rparr>
                 else ec)
      in (ec', if channel ev \<in> set channelSet then channelSet else channelSet @ [channel ev]))"

definition totalEvents :: "event_count \<Rightarrow> nat" where
  "totalEvents ec = hfo ec + ied ec + rhythmic ec"

definition severity_of :: "event_count \<Rightarrow> severity" where
  "severity_of ec =
     (let hfoRatio = js_div (real (hfo ec)) (real (totalEvents ec))
      in if js_gt hfoRatio (1 / 2) \<or> totalEvents ec > 10 then High
         else if js_gt hfoRatio (1 / 5) \<or> totalEvents ec > 5 then Medium
         else Low)"

text \<open>The confidence of a cluster with \<open>tot\<close> counted events, duration \<open>duration\<close> and
  \<open>sz\<close> channels, for the divisor \<open>nchannels\<close> and the random draw \<open>r\<close>. The products and
  the sum are exact here and rounded to doubles in the program, so where the exact value
  before \<open>Math.round\<close> is a half-integer, or within the rounding error of one, the program's
  integer can be the neighbouring one: three events over three seconds on the only channel
  with the draw 0 give \<open>45 * 0.7\<close>, which is 31.5 here and rounds to 32, and
  31.499999999999996 in the program, which rounds to 31. Whether the value is a number, an
  infinity or \<open>NaN\<close> is the same in both while the operands stay in the range of doubles.\<close>

definition confidence_of :: "nat \<Rightarrow> real \<Rightarrow> nat \<Rightarrow> nat \<Rightarrow> real \<Rightarrow> jsnum" where
  "confidence_of tot duration sz nchannels r =
     (let eventDensity = js_div (real tot) duration;
          channelInvolvement = js_div (real sz) (real nchannels)
      in js_min 95
           (js_round
              (js_times (js_plus (js_times eventDensity 20) (js_times channelInvolvement 50))
                 (7 / 10 + r * (3 / 10)))))"

text \<open>The callback of \<open>.map\<close>: a cluster becomes a region.\<close>

definition toRegion :: "nat \<Rightarrow> real \<Rightarrow> cluster \<Rightarrow> ictal_region" where
  "toRegion nchannels r c =
     (let (ec, channelSet) = fold count_event (cl_events c) (\<lparr>hfo = 0, ied = 0, rhythmic = 0\<rparr>, [])
      in \<lparr>rg_start = cl_start c, rg_end = cl_end c, rg_channels = channelSet,
          confidence = confidence_of (totalEvents ec) (cl_end c - cl_start c)
                         (length channelSet) nchannels r,
          eventCount = ec, severity = severity_of ec\<rparr>)"

definition severityOrder :: "severity \<Rightarrow> real" where
  "severityOrder s = (case s of High \<Rightarrow> 0 | Medium \<Rightarrow> 1 | Low \<Rightarrow> 2)"

text \<open>The comparator of the final sort. \<open>sort\<close> takes a comparator result \<open>NaN\<close> as 0;
  an infinite one counts by its sign.\<close>

definition region_cmp :: "ictal_region \<Rightarrow> ictal_region \<Rightarrow> real" where
  "region_cmp a b =
     (if severity a \<noteq> severity b then severityOrder (severity a) - severityOrder (severity b)
      else (case js_minus (confidence b) (confidence a) of
              Num d \<Rightarrow> d | PosInf \<Rightarrow> 1 | NegInf \<Rightarrow> - 1 | NaN \<Rightarrow> 0))"

text \<open>The clusters that become regions, in the order \<open>.filter\<close> leaves them.\<close>

definition survivors :: "eeg_channel list \<Rightarrow> cluster list" where
  "survivors channels =
     filter (\<lambda>c. length (cl_events c) \<ge> 3) (clusterEvents (sortedEvents channels))"

text \<open>
  The regions before the final sort. The \<open>k\<close>-th surviving cluster makes the \<open>k\<close>-th call
  of \<open>Math.random()\<close>, which is \<open>rnd (n + k)\<close> when \<open>n\<close> draws were made before.
\<close>

definition regions_of :: "nat \<Rightarrow> (nat \<Rightarrow> real) \<Rightarrow> nat \<Rightarrow> cluster list \<Rightarrow> ictal_region list" where
  "regions_of nchannels rnd n cs =
     map (\<lambda>(k, c). toRegion nchannels (rnd (n + k)) c) (enumerate 0 cs)"

text \<open>\<open>identifyIctalRegions\<close> of the EEG processor.\<close>

definition identifyIctalRegions :: "(nat \<Rightarrow> real) \<Rightarrow> nat \<Rightarrow> eeg_channel list \<Rightarrow> ictal_region list" where
  "identifyIctalRegions rnd n channels =
     sort_cmp region_cmp (regions_of (length channels) rnd n (survivors channels))"

text \<open>The event ratio of a region as the specification words it:
  \<open>hfoRatio = eventCount.hfo / totalEvents\<close>.\<close>

definition hfoRatio :: "event_count \<Rightarrow> real" where
  "hfoRatio ec = real (hfo ec) / real (totalEvents ec)"

text \<open>Every event of every channel ends after it starts (the invariant \<open>end > start\<close> of
  the data model).\<close>

definition ends_after_starts :: "eeg_channel list \<Rightarrow> bool" where
  "ends_after_starts channels =
     list_all (\<lambda>ch. list_all (\<lambda>e. start e < endt e) (events ch)) channels"

text \<open>Every event of every channel has a type label that includes HFO, IED or Rhythmic.\<close>

definition labelled_events :: "eeg_channel list \<Rightarrow> bool" where
  "labelled_events channels =
     list_all (\<lambda>ch. list_all (\<lambda>e. recognised (etype e)) (events ch)) channels"

text \<open>An event as a detector makes it.\<close>

definition event_ok :: "event \<Rightarrow> bool" where
  "event_ok e = (start e < endt e \<and> recognised (etype e))"

section \<open>The analysis panel\<close>

text \<open>
  \<open>identifyIctalRegions\<close> of the analysis panel is the same pass over
  \<open>data.channels\<close>, with the divisor \<open>data.channels.length || 1\<close> for the channel
  involvement. Its first line returns \<open>[]\<close> when \<open>data\<close> has no array \<open>channels\<close>, which
  a value of the record type always has.
\<close>

definition identifyIctalRegions_panel ::
  "(nat \<Rightarrow> real) \<Rightarrow> nat \<Rightarrow> eeg_channel list \<Rightarrow> ictal_region list" where
  "identifyIctalRegions_panel rnd n channels =
     sort_cmp region_cmp
       (regions_of (if length channels = 0 then 1 else length channels) rnd n (survivors channels))"

record pattern_counts =
  pc_hfo :: nat
  pc_ied :: nat
  pc_rhythmic :: nat
  pc_total :: nat

record analysis_event =
  ae_type :: string
  ae_channel :: string
  ae_amplitude :: real
  ae_frequency :: real
  ae_duration :: real
  ae_confidence :: int

record pattern_percentages =
  pp_hfo :: real
  pp_ied :: real
  pp_rhythmic :: real

record type_features =
  tf_amplitude :: real
  tf_frequency :: real
  tf_duration :: real

record features_by_type =
  fb_hfo :: type_features
  fb_ied :: type_features
  fb_rhythmic :: type_features

record feature_stats =
  avgAmplitude :: real
  avgFrequency :: real
  avgDuration :: real
  maxAmplitude :: real
  maxFrequency :: real

record analysis_results =
  patternCounts :: pattern_counts
  patternPercentages :: pattern_percentages
  featuresByType :: features_by_type
  featureStats :: feature_stats
  ictalRegions :: "ictal_region list"
  epilepsyRisk :: int

text \<open>
  The callback of \<open>channel.events.forEach\<close> in \<open>generateAnalysisResults\<close>. The state is the
  counts, the list \<open>allEvents\<close> and the number of random draws made so far. The amplitude
  is \<open>event.amplitude || Math.round(channel.voltage * (Math.random() * 0.5 + 0.5))\<close>, which
  draws only when the event's amplitude is 0; then come the draw for the frequency, if
  the type has one of the labels, and the draw for the confidence.
\<close>

definition analyse_event ::
  "(nat \<Rightarrow> real) \<Rightarrow> eeg_channel \<Rightarrow> event
     \<Rightarrow> pattern_counts \<times> analysis_event list \<times> nat \<Rightarrow> pattern_counts \<times> analysis_event list \<times> nat" where
  "analyse_event rnd ch ev st =
     (let (pc, aes, n) = st;
          pc' = (if str_includes (etype ev) ''HFO'' then pc\<lparr>pc_hfo := pc_hfo pc + 1\<rparr>
                 else if str_includes (etype ev) ''IED'' then pc\<lparr>pc_ied := pc_ied pc + 1\<rparr>
                 else if str_includes (etype ev) ''Rhythmic'' then pc\<lparr>pc_rhythmic := pc_rhythmic pc + 1\<rparr>
                 else pc);
          (amp, n1) = (if amplitude ev \<noteq> 0 then (amplitude ev, n)
                       else (of_int (round (voltage ch * (rnd n * (1 / 2) + 1 / 2))), n + 1));
          (freq, n2) = (if str_includes (etype ev) ''HFO'' then (80 + rnd n1 * 70, n1 + 1)
                        else if str_includes (etype ev) ''IED'' then (8 + rnd n1 * 12, n1 + 1)
                        else if str_includes (etype ev) ''Rhythmic'' then (1 + rnd n1 * 4, n1 + 1)
                        else (0, n1))
      in (pc',
          aes @ [\<lparr>ae_type = etype ev, ae_channel = name ch, ae_amplitude = amp,
                   ae_frequency = freq, ae_duration = endt ev - start ev,
                   ae_confidence = round ((7 / 10 + rnd n2 * (3 / 10)) * 100)\<rparr>],
          n2 + 1))"

definition analyse_channel ::
  "(nat \<Rightarrow> real) \<Rightarrow> eeg_channel
     \<Rightarrow> pattern_counts \<times> analysis_event list \<times> nat \<Rightarrow> pattern_counts \<times> analysis_event list \<times> nat" where
  "analyse_channel rnd ch st = fold (analyse_event rnd ch) (events ch) st"

text \<open>\<open>xs.length > 0 ? xs.reduce((sum, e) => sum + f(e), 0) / xs.length : 0\<close>.\<close>

definition average :: "('a \<Rightarrow> real) \<Rightarrow> 'a list \<Rightarrow> real" where
  "average f xs = (if length xs > 0 then sum_list (map f xs) / real (length xs) else 0)"

text \<open>\<open>xs.length > 0 ? Math.max(...xs.map(f)) : 0\<close>.\<close>

definition maximum :: "('a \<Rightarrow> real) \<Rightarrow> 'a list \<Rightarrow> real" where
  "maximum f xs = (case xs of [] \<Rightarrow> 0 | x # ys \<Rightarrow> fold max (map f ys) (f x))"

definition features_of :: "analysis_event list \<Rightarrow> type_features" where
  "features_of es = \<lparr>tf_amplitude = average ae_amplitude es, tf_frequency = average ae_frequency es,
                     tf_duration = average ae_duration es\<rparr>"

text \<open>The risk score from the three counts and the number of regions.\<close>

definition risk_score :: "nat \<Rightarrow> nat \<Rightarrow> nat \<Rightarrow> nat \<Rightarrow> int" where
  "risk_score h i r g =
     (let hfoWeight = 4 / 10; iedWeight = 3 / 10; rhythmicWeight = 1 / 10; ictalWeight = 2 / 10;
          maxPatterns = 50;
          normalizedHfo = min (real h / maxPatterns) 1;
          normalizedIed = min (real i / maxPatterns) 1;
          normalizedRhythmic = min (real r / maxPatterns) 1;
          normalizedIctal = min (real g / 5) 1
      in round ((normalizedHfo * hfoWeight + normalizedIed * iedWeight
                 + normalizedRhythmic * rhythmicWeight + normalizedIctal * ictalWeight) * 100))"

definition generateAnalysisResults :: "(nat \<Rightarrow> real) \<Rightarrow> eeg_channel list \<Rightarrow> analysis_results" where
  "generateAnalysisResults rnd channels =
     (let (pc0, aes, n) =
            fold (analyse_channel rnd) channels
              (\<lparr>pc_hfo = 0, pc_ied = 0, pc_rhythmic = 0, pc_total = 0\<rparr>, [], 0);
          pc = pc0\<lparr>pc_total := pc_hfo pc0 + pc_ied pc0 + pc_rhythmic pc0\<rparr>;
          pp = \<lparr>pp_hfo = (if pc_total pc > 0 then real (pc_hfo pc) / real (pc_total pc) * 100 else 0),
                pp_ied = (if pc_total pc > 0 then real (pc_ied pc) / real (pc_total pc) * 100 else 0),
                pp_rhythmic = (if pc_total pc > 0
                               then real (pc_rhythmic pc) / real (pc_total pc) * 100 else 0)\<rparr>;
          hfoEvents = filter (\<lambda>e. str_includes (ae_type e) ''HFO'') aes;
          iedEvents = filter (\<lambda>e. str_includes (ae_type e) ''IED'') aes;
          rhythmicEvents = filter (\<lambda>e. str_includes (ae_type e) ''Rhythmic'') aes;
          fb = \<lparr>fb_hfo = features_of hfoEvents, fb_ied = features_of iedEvents,
                fb_rhythmic = features_of rhythmicEvents\<rparr>;
          fs = \<lparr>avgAmplitude = average ae_amplitude aes, avgFrequency = average ae_frequency aes,
                avgDuration = average ae_duration aes, maxAmplitude = maximum ae_amplitude aes,
                maxFrequency = maximum ae_frequency aes\<rparr>;
          regions = identifyIctalRegions_panel rnd n channels
      in \<lparr>patternCounts = pc, patternPercentages = pp, featuresByType = fb, featureStats = fs,
          ictalRegions = regions,
          epilepsyRisk = risk_score (pc_hfo pc) (pc_ied pc) (pc_rhythmic pc) (length regions)\<rparr>)"

text \<open>The list \<open>allEvents\<close> that \<open>generateAnalysisResults\<close> builds.\<close>

definition analysisEvents :: "(nat \<Rightarrow> real) \<Rightarrow> eeg_channel list \<Rightarrow> analysis_event list" where
  "analysisEvents rnd channels =
     fst (snd (fold (analyse_channel rnd) channels
                 (\<lparr>pc_hfo = 0, pc_ied = 0, pc_rhythmic = 0, pc_total = 0\<rparr>, [], 0)))"

section \<open>Sample recordings\<close>

text \<open>Concrete inputs at which the theorems below are instantiated.\<close>

definition sample_event :: "string \<Rightarrow> real \<Rightarrow> real \<Rightarrow> event" where
  "sample_event t s e = \<lparr>start = s, endt = e, etype = t, amplitude = 60, frequency = 10\<rparr>"

text \<open>Four IED events within four seconds on one channel.\<close>

definition four_ied_channel :: eeg_channel where
  "four_ied_channel =
     \<lparr>name = ''C4'', data = [],
      events = [sample_event ''IED (Intractal Epileptiform Discharge)'' 0 (1 / 5),
                sample_event ''IED (Intractal Epileptiform Discharge)'' 1 (6 / 5),
                sample_event ''IED (Intractal Epileptiform Discharge)'' 2 (11 / 5),
                sample_event ''IED (Intractal Epileptiform Discharge)'' 3 (16 / 5)],
      voltage = 194 / 5\<rparr>"

definition four_ied_cluster :: cluster where
  "four_ied_cluster =
     \<lparr>cl_events = map (pool ''C4'')
                    [sample_event ''IED (Intractal Epileptiform Discharge)'' 0 (1 / 5),
                     sample_event ''IED (Intractal Epileptiform Discharge)'' 1 (6 / 5),
                     sample_event ''IED (Intractal Epileptiform Discharge)'' 2 (11 / 5),
                     sample_event ''IED (Intractal Epileptiform Discharge)'' 3 (16 / 5)],
      cl_start = 0, cl_end = 16 / 5\<rparr>"

definition four_ied_region :: ictal_region where
  "four_ied_region =
     \<lparr>rg_start = 0, rg_end = 16 / 5, rg_channels = [''C4''], confidence = Num 64,
      eventCount = \<lparr>hfo = 0, ied = 4, rhythmic = 0\<rparr>, severity = Low\<rparr>"



text \<open>
  751 samples at 250 Hz: 25 samples alternating between -15 and 15 from sample 36 on, four
  samples of 30 at the positions 100, 120, 140 and 160, and 0 elsewhere.
\<close>

definition overlap_samples :: "real list" where
  "overlap_samples =
     replicate 36 0
     @ [- 15, 15, - 15, 15, - 15, 15, - 15, 15, - 15, 15, - 15, 15, - 15,
        15, - 15, 15, - 15, 15, - 15, 15, - 15, 15, - 15, 15, - 15]
     @ replicate 39 0
     @ [30] @ replicate 19 0 @ [30] @ replicate 19 0 @ [30] @ replicate 19 0 @ [30]
     @ replicate 590 0"

definition overlap_channel :: eeg_channel where
  "overlap_channel = \<lparr>name = ''C4'', data = overlap_samples, events = [], voltage = 194 / 5\<rparr>"

text \<open>The two events that the detectors accept on these samples.\<close>

definition overlap_hfo :: event where
  "overlap_hfo = \<lparr>start = 36 / 250, endt = 61 / 250, etype = ''HFO (High Frequency Oscillation)'',
                  amplitude = 30, frequency = 120\<rparr>"

definition overlap_rhythmic :: event where
  "overlap_rhythmic = \<lparr>start = 0, endt = 3, etype = ''Rhythmic Discharge'',
                       amplitude = 45, frequency = 25 / 2\<rparr>"

text \<open>Three events under a label that includes none of HFO, IED and Rhythmic.\<close>

definition unlabelled_channel :: eeg_channel where
  "unlabelled_channel =
     \<lparr>name = ''C4'', data = [],
      events = [sample_event ''Artifact'' 0 1, sample_event ''Artifact'' 1 2,
                sample_event ''Artifact'' 2 3],
      voltage = 194 / 5\<rparr>"

definition unlabelled_cluster :: cluster where
  "unlabelled_cluster =
     \<lparr>cl_events = map (pool ''C4'')
                    [sample_event ''Artifact'' 0 1, sample_event ''Artifact'' 1 2,
                     sample_event ''Artifact'' 2 3],
      cl_start = 0, cl_end = 3\<rparr>"

section \<open>Properties of the sliding-window loop\<close>

lemma scan_loop_fold:
  "0 < stepSize \<Longrightarrow>
     scan_loop body len windowSize stepSize i st
       = Some (fold body (scan_starts len windowSize stepSize i) st)"
proof (induction len windowSize stepSize i arbitrary: st rule: scan_starts.induct)
  case (1 len windowSize stepSize i)
  show ?case
  proof (cases "i + windowSize < len")
    case True
    then have g: "int i < int len - int windowSize" by linarith
    have "scan_loop body len windowSize stepSize i st
            = scan_loop body len windowSize stepSize (i + stepSize) (body i st)"
      using g by (subst scan_loop.simps) simp
    also have "\<dots> = Some (fold body (scan_starts len windowSize stepSize (i + stepSize)) (body i st))"
      using "1.IH" "1.prems" True by simp
    also have "\<dots> = Some (fold body (scan_starts len windowSize stepSize i) st)"
      using "1.prems" True by (subst (2) scan_starts.simps) simp
    finally show ?thesis .
  next
    case False
    then have g: "\<not> int i < int len - int windowSize" by linarith
    have "scan_loop body len windowSize stepSize i st = Some st"
      using g by (subst scan_loop.simps) simp
    moreover have "scan_starts len windowSize stepSize i = []"
      using False by (subst scan_starts.simps) simp
    ultimately show ?thesis by simp
  qed
qed

text \<open>With the step 0 the loop does not return once its guard holds: the start index
  never moves. (A sample rate below 20 gives the HFO detector the step 0.)\<close>

lemma scan_loop_Some_step:
  assumes "scan_loop body len windowSize stepSize i st = Some y"
  shows "stepSize = 0 \<longrightarrow> \<not> i + windowSize < len"
proof (rule scan_loop.raw_induct
    [where P = "\<lambda>body len windowSize stepSize i st y. stepSize = 0 \<longrightarrow> \<not> i + windowSize < len",
     OF _ assms])
  fix loop :: "(nat \<Rightarrow> 's \<Rightarrow> 's) \<Rightarrow> nat \<Rightarrow> nat \<Rightarrow> nat \<Rightarrow> nat \<Rightarrow> 's \<Rightarrow> 's option"
    and body len windowSize stepSize i st y
  assume ih: "\<And>body len windowSize stepSize i st y.
      loop body len windowSize stepSize i st = Some y \<Longrightarrow> stepSize = 0 \<longrightarrow> \<not> i + windowSize < len"
    and eq: "(if int i < int len - int windowSize
              then loop body len windowSize stepSize (i + stepSize) (body i st)
              else Some st) = Some y"
  show "stepSize = 0 \<longrightarrow> \<not> i + windowSize < len"
  proof (cases "int i < int len - int windowSize")
    case True
    then have "loop body len windowSize stepSize (i + stepSize) (body i st) = Some y"
      using eq by simp
    then have "stepSize = 0 \<longrightarrow> \<not> (i + stepSize) + windowSize < len"
      by (rule ih)
    then show ?thesis using True by auto
  next
    case False
    then show ?thesis by linarith
  qed
qed

lemma scan_loop_diverges:
  "stepSize = 0 \<Longrightarrow> i + windowSize < len \<Longrightarrow>
     scan_loop body len windowSize stepSize i st = None"
  using scan_loop_Some_step [of body len windowSize stepSize i st]
  by (cases "scan_loop body len windowSize stepSize i st") auto

lemma scan_starts_multiples:
  "0 < S \<Longrightarrow>
     scan_starts len W S (j * S) = filter (\<lambda>i. i + W < len) (map (\<lambda>k. k * S) [j..<len])"
proof (induction "len - j" arbitrary: j)
  case 0
  then have "len \<le> j" by simp
  moreover have "j \<le> j * S" using \<open>0 < S\<close> by simp
  ultimately have "\<not> j * S + W < len" by linarith
  then have "scan_starts len W S (j * S) = []"
    by (subst scan_starts.simps) simp
  then show ?case using \<open>len \<le> j\<close> by simp
next
  case (Suc n)
  then have jl: "j < len" by simp
  show ?case
  proof (cases "j * S + W < len")
    case True
    have "scan_starts len W S (j * S) = j * S # scan_starts len W S (Suc j * S)"
      using True \<open>0 < S\<close> by (subst scan_starts.simps) (simp add: add.commute)
    also have "scan_starts len W S (Suc j * S)
                 = filter (\<lambda>i. i + W < len) (map (\<lambda>k. k * S) [Suc j..<len])"
      using Suc.hyps(1) [of "Suc j"] Suc.hyps(2) \<open>0 < S\<close> by simp
    finally show ?thesis using True jl by (simp add: upt_conv_Cons)
  next
    case False
    have "\<not> k * S + W < len" if "j \<le> k" for k
    proof -
      have "j * S \<le> k * S" using that by simp
      with False show ?thesis by linarith
    qed
    then have "filter (\<lambda>i. i + W < len) (map (\<lambda>k. k * S) [j..<len]) = []"
      by (auto simp: filter_empty_conv)
    moreover have "scan_starts len W S (j * S) = []"
      using False by (subst scan_starts.simps) simp
    ultimately show ?thesis by simp
  qed
qed

lemma fold_snoc_map: "fold (\<lambda>i ws. ws @ [f i]) is acc = acc @ map f is"
  by (induction "is" arbitrary: acc) simp_all

lemma scan_windows_strict:
  "0 < S \<Longrightarrow> scan_windows dat W S = Some (strict_windows dat W S)"
  using scan_starts_multiples [of S "length dat" W 0]
  by (simp add: scan_windows_def strict_windows_def scan_loop_fold fold_snoc_map)

lemma slice_length: "i + W \<le> length xs \<Longrightarrow> length (slice xs i (i + W)) = W"
  by (simp add: slice_def)

lemma strict_windows_short: "length dat \<le> W \<Longrightarrow> strict_windows dat W S = []"
  by (auto simp: strict_windows_def filter_empty_conv)

text \<open>
  Claim C2, as the code has it. For a window length \<open>W > 0\<close> and a step \<open>S > 0\<close> the loop
  returns, and the windows it hands to the detector are exactly the slices \<open>[i, i+W)\<close> for
  \<open>i = 0, S, 2S, \<dots>\<close> while \<open>i + W < length\<close> (strictly: the loop guard is
  \<open>i < data.length - windowSize\<close>), in that order; each has \<open>W\<close> samples; and when the data
  are not longer than one window the result is the empty sequence, not an error.
\<close>

theorem scan_windows_strict_slices:
  assumes "0 < W" and "0 < S"
  shows "scan_windows dat W S = Some (strict_windows dat W S)
       \<and> list_all (\<lambda>w. length w = W) (strict_windows dat W S)
       \<and> (length dat \<le> W \<longrightarrow> scan_windows dat W S = Some [])"
proof -
  have a: "scan_windows dat W S = Some (strict_windows dat W S)"
    using assms(2) by (rule scan_windows_strict)
  have b: "list_all (\<lambda>w. length w = W) (strict_windows dat W S)"
    by (auto simp: strict_windows_def list_all_iff slice_length)
  have c: "length dat \<le> W \<longrightarrow> scan_windows dat W S = Some []"
    using a by (simp add: strict_windows_short)
  from a b c show ?thesis by blast
qed

theorem scan_windows_strict_slices_witness:
  "scan_windows [1, 2, 3, 4, 5, 6] 2 3 = Some [[1, 2], [4, 5]]
   \<and> scan_windows [1, 2] 2 3 = Some []"
proof -
  have w: "(0::nat) < 2" and s: "(0::nat) < 3" by simp_all
  have "strict_windows [1, 2, 3, 4, 5, 6] 2 3 = [[1, 2], [4, 5]]"
    by (simp add: strict_windows_def slice_def upt_conv_Cons)
  then have a: "scan_windows [1, 2, 3, 4, 5, 6] 2 3 = Some [[1, 2], [4, 5]]"
    using scan_windows_strict_slices [OF w s, of "[1, 2, 3, 4, 5, 6]"] by simp
  have "length [1, 2 :: real] \<le> 2 \<longrightarrow> scan_windows [1, 2] 2 3 = Some []"
    using scan_windows_strict_slices [OF w s, of "[1, 2]"] by blast
  then have b: "scan_windows [1, 2] 2 3 = Some []" by simp
  from a b show ?thesis by blast
qed

text \<open>
  Claim C2 as stated fails where the data are exactly one window long: 25 samples, the
  100 ms window of the HFO detector at 250 Hz with its step of 12. The specification's
  bound \<open>i + W \<le> length\<close> gives the one window \<open>[0, 25)\<close>; the loop gives none.
\<close>

theorem scan_windows_last_window_counterexample:
  "spec_windows (replicate 25 0) 25 12 = [replicate 25 0]
   \<and> scan_windows (replicate 25 0) 25 12 = Some []"
proof -
  have "filter (\<lambda>i. i + 25 \<le> (25::nat)) (map (\<lambda>k. k * 12) [0..<26]) = [0]"
    by (simp add: upt_conv_Cons)
  then have a: "spec_windows (replicate 25 0) 25 12 = [replicate 25 0]"
    by (simp add: spec_windows_def slice_def)
  have "scan_windows (replicate 25 0) 25 12 = Some (strict_windows (replicate 25 0) 25 12)"
    by (rule scan_windows_strict) simp
  then have b: "scan_windows (replicate 25 0) 25 12 = Some []"
    by (simp add: strict_windows_short)
  from a b show ?thesis by blast
qed

subsection \<open>The slopes of the IED detector\<close>

lemma ied_classify_zero: "\<not> ied_classify maxAmp 0 0"
  by (simp add: ied_classify_def)

text \<open>
  Claim C8, as the code has it. In a window of the IED detector with the peak at \<open>maxPos\<close>:
  if \<open>maxPos > 5\<close> and \<open>maxPos < windowLength - 5\<close> (at least 6 samples before the peak and
  5 after it), the slopes are \<open>(v[maxPos] - v[maxPos-5])/5\<close> and
  \<open>(v[maxPos] - v[maxPos+5])/5\<close>; otherwise both slopes are 0, the window is not classified
  as IED and the iteration leaves the events as they were.
\<close>

theorem ied_slopes_margin:
  "(5 < maxPos \<and> maxPos + 5 < length w \<longrightarrow>
      ied_slopes w maxPos = ((w ! maxPos - w ! (maxPos - 5)) / 5, (w ! maxPos - w ! (maxPos + 5)) / 5))
   \<and> (\<not> (5 < maxPos \<and> maxPos + 5 < length w) \<longrightarrow>
      ied_slopes w maxPos = (0, 0)
      \<and> \<not> ied_classify maxAmp (fst (ied_slopes w maxPos)) (snd (ied_slopes w maxPos)))
   \<and> (\<not> (5 < snd (maxAbs w 0 (0, 0)) \<and> snd (maxAbs w 0 (0, 0)) + 5 < length w) \<longrightarrow>
      fst (ied_window rnd sampleRate windowSize w i (evs, n)) = evs)"
proof -
  have g: "(5 < p \<and> int p < int (length w) - 5) = (5 < p \<and> p + 5 < length w)" for p
    by linarith
  have a: "5 < maxPos \<and> maxPos + 5 < length w \<longrightarrow>
      ied_slopes w maxPos = ((w ! maxPos - w ! (maxPos - 5)) / 5, (w ! maxPos - w ! (maxPos + 5)) / 5)"
    by (simp add: ied_slopes_def g)
  have z: "ied_slopes w p = (0, 0)" if "\<not> (5 < p \<and> p + 5 < length w)" for p
  proof -
    have "\<not> (5 < p \<and> int p < int (length w) - 5)" using that g [of p] by blast
    then show ?thesis by (simp only: ied_slopes_def if_False)
  qed
  have b: "\<not> (5 < maxPos \<and> maxPos + 5 < length w) \<longrightarrow>
      ied_slopes w maxPos = (0, 0)
      \<and> \<not> ied_classify maxAmp (fst (ied_slopes w maxPos)) (snd (ied_slopes w maxPos))"
    using z [of maxPos] by (simp add: ied_classify_zero)
  have c: "\<not> (5 < snd (maxAbs w 0 (0, 0)) \<and> snd (maxAbs w 0 (0, 0)) + 5 < length w) \<longrightarrow>
      fst (ied_window rnd sampleRate windowSize w i (evs, n)) = evs"
  proof
    assume h: "\<not> (5 < snd (maxAbs w 0 (0, 0)) \<and> snd (maxAbs w 0 (0, 0)) + 5 < length w)"
    obtain ma mp where m: "maxAbs w 0 (0, 0) = (ma, mp)" by (cases "maxAbs w 0 (0, 0)")
    with h have "ied_slopes w mp = (0, 0)" using z [of mp] by simp
    then show "fst (ied_window rnd sampleRate windowSize w i (evs, n)) = evs"
      by (simp add: ied_window_def m ied_classify_zero)
  qed
  from a b c show ?thesis by blast
qed

theorem ied_slopes_margin_witness:
  "ied_slopes [0, 0, 0, 0, 0, 0, 100, 0, 0, 0, 0, 30] 6 = (20, 14)
   \<and> ied_slopes [0, 0, 0, 0, 100, 0, 0, 0, 0, 0, 0, 0] 4 = (0, 0)
   \<and> fst (ied_window (\<lambda>n. 0) 250 50 [0, 0, 0, 0, 100, 0, 0, 0, 0, 0, 0, 0] 0 ([], 0)) = []"
proof -
  have m: "snd (maxAbs [0, 0, 0, 0, 100, 0, 0, 0, 0, 0, 0, 0] 0 (0, 0)) = 4"
    by simp
  show ?thesis
    using ied_slopes_margin [of 6 "[0, 0, 0, 0, 0, 0, 100, 0, 0, 0, 0, 30]" 100 "\<lambda>n. 0" 250 50 0 "[]" 0]
      ied_slopes_margin [of 4 "[0, 0, 0, 0, 100, 0, 0, 0, 0, 0, 0, 0]" 100 "\<lambda>n. 0" 250 50 0 "[]" 0]
      m
    by simp
qed

text \<open>
  Claim C8 as stated fails at \<open>maxPos = 5\<close>: a 50-sample window (200 ms at 250 Hz) whose
  largest sample is at position 5 has 5 samples before the peak and 44 after it, so the
  claim's condition \<open>maxPos \<ge> 5 \<and> maxPos \<le> windowLength - 1 - 5\<close> holds, yet the slopes
  are 0 and not \<open>(v[5] - v[0])/5 = 20\<close>.
\<close>

theorem ied_slopes_margin_five_counterexample:
  "snd (maxAbs (replicate 5 0 @ [100] @ replicate 44 0) 0 (0, 0)) = 5
   \<and> (5::nat) \<ge> 5 \<and> 5 \<le> length (replicate 5 (0::real) @ [100] @ replicate 44 0) - 1 - 5
   \<and> ied_slopes (replicate 5 0 @ [100] @ replicate 44 0) 5 = (0, 0)
   \<and> ((replicate 5 0 @ [100] @ replicate 44 0) ! 5 - (replicate 5 0 @ [100] @ replicate 44 0) ! (5 - 5)) / 5
       = (20::real)"
proof -
  have w: "replicate 5 (0::real) @ [100] @ replicate 44 0
             = [0, 0, 0, 0, 0, 100] @ replicate 44 0"
    by (simp add: numeral_eq_Suc)
  have z: "maxAbs (replicate k 0) j (100, p) = (100, p)" for k j p
    by (induction k arbitrary: j) simp_all
  have a: "snd (maxAbs (replicate 5 0 @ [100] @ replicate 44 0) 0 (0, 0)) = 5"
    unfolding w by (simp add: z)
  have b: "ied_slopes (replicate 5 0 @ [100] @ replicate 44 0) 5 = (0, 0)"
    by (simp add: ied_slopes_def)
  have c: "((replicate 5 0 @ [100] @ replicate 44 0) ! 5
             - (replicate 5 0 @ [100] @ replicate 44 0) ! (5 - 5)) / 5 = (20::real)"
    unfolding w by simp
  from a b c show ?thesis by simp
qed

section \<open>Properties of the clusterer\<close>

lemma insort_cmp_key: "insort_cmp (\<lambda>a b. f a - f b) x ys = insort_key f x ys"
  by (induction ys) simp_all

lemma sort_cmp_key: "sort_cmp (\<lambda>a b. f a - f b) xs = sort_key f xs"
  by (induction xs) (simp_all add: sort_cmp_def insort_cmp_key)

lemma set_insort_cmp: "set (insort_cmp cmp x ys) = insert x (set ys)"
  by (induction ys) auto

lemma set_sort_cmp: "set (sort_cmp cmp xs) = set xs"
  by (induction xs) (simp_all add: sort_cmp_def set_insort_cmp)

lemma length_insort_cmp: "length (insort_cmp cmp x ys) = Suc (length ys)"
  by (induction ys) auto

lemma length_sort_cmp: "length (sort_cmp cmp xs) = length xs"
  by (induction xs) (simp_all add: sort_cmp_def length_insort_cmp)

lemma sortedEvents_sorted: "sorted (map start (sortedEvents channels))"
  by (simp add: sortedEvents_def sort_cmp_key)

lemma sortedEvents_set: "set (sortedEvents channels) = set (allEvents channels)"
  by (simp add: sortedEvents_def set_sort_cmp)

lemma sortedEvents_length: "length (sortedEvents channels) = length (allEvents channels)"
  by (simp add: sortedEvents_def length_sort_cmp)

lemma fold_cluster_step:
  "0 < k \<Longrightarrow> currentCluster st \<noteq> [] \<Longrightarrow>
     close_cluster (fold cluster_step (zip es [k..<k + length es]) st)
       = clusters st @ greedy_from (currentCluster st) (clusterStart st) (clusterEnd st) es"
proof (induction es arbitrary: k st)
  case Nil
  then show ?case by (simp add: close_cluster_def)
next
  case (Cons e es)
  have "[k..<k + length (e # es)] = k # [Suc k..<Suc k + length es]"
    by (simp add: upt_conv_Cons del: upt_Suc)
  then have z: "zip (e # es) [k..<k + length (e # es)] = (e, k) # zip es [Suc k..<Suc k + length es]"
    by (simp only: zip_Cons_Cons)
  have step: "close_cluster (fold cluster_step (zip (e # es) [k..<k + length (e # es)]) st)
      = close_cluster (fold cluster_step (zip es [Suc k..<Suc k + length es]) (cluster_step (e, k) st))"
    by (simp only: z fold_simps)
  show ?case
  proof (cases "start e \<le> clusterEnd st + 10")
    case True
    let ?st = "st\<lparr>currentCluster := currentCluster st @ [e],
                   clusterEnd := max (clusterEnd st) (endt e)\<rparr>"
    have s: "cluster_step (e, k) st = ?st"
      using Cons.prems True by (simp add: cluster_step_def)
    have ih: "close_cluster (fold cluster_step (zip es [Suc k..<Suc k + length es]) ?st)
            = clusters ?st @ greedy_from (currentCluster ?st) (clusterStart ?st) (clusterEnd ?st) es"
      by (rule Cons.IH) simp_all
    have g: "clusters ?st @ greedy_from (currentCluster ?st) (clusterStart ?st) (clusterEnd ?st) es
            = clusters st @ greedy_from (currentCluster st) (clusterStart st) (clusterEnd st) (e # es)"
      using True by simp
    show ?thesis by (simp only: step s ih g)
  next
    case False
    let ?st = "\<lparr>clusters = close_cluster st, currentCluster = [e],
                 clusterStart = start e, clusterEnd = endt e\<rparr>"
    have s: "cluster_step (e, k) st = ?st"
      using Cons.prems False by (simp add: cluster_step_def)
    have ih: "close_cluster (fold cluster_step (zip es [Suc k..<Suc k + length es]) ?st)
            = clusters ?st @ greedy_from (currentCluster ?st) (clusterStart ?st) (clusterEnd ?st) es"
      by (rule Cons.IH) simp_all
    have g: "clusters ?st @ greedy_from (currentCluster ?st) (clusterStart ?st) (clusterEnd ?st) es
            = clusters st @ greedy_from (currentCluster st) (clusterStart st) (clusterEnd st) (e # es)"
      using False Cons.prems by (simp add: close_cluster_def)
    show ?thesis by (simp only: step s ih g)
  qed
qed

lemma clusterEvents_greedy: "clusterEvents evs = greedy_clusters evs"
proof (cases evs)
  case Nil
  then show ?thesis by (simp add: clusterEvents_def greedy_clusters_def close_cluster_def)
next
  case (Cons e es)
  let ?init = "\<lparr>clusters = [], currentCluster = [], clusterStart = 0, clusterEnd = 0\<rparr>"
  let ?st = "\<lparr>clusters = [], currentCluster = [e], clusterStart = start e, clusterEnd = endt e\<rparr>"
  have "[0..<length (e # es)] = 0 # [1..<1 + length es]"
    by (simp add: upt_conv_Cons del: upt_Suc)
  then have z: "zip (e # es) [0..<length (e # es)] = (e, 0) # zip es [1..<1 + length es]"
    by (simp only: zip_Cons_Cons)
  have s: "cluster_step (e, 0) ?init = ?st"
    by (simp add: cluster_step_def)
  have ih: "close_cluster (fold cluster_step (zip es [1..<1 + length es]) ?st)
          = clusters ?st @ greedy_from (currentCluster ?st) (clusterStart ?st) (clusterEnd ?st) es"
    by (rule fold_cluster_step) simp_all
  have "clusterEvents (e # es)
          = close_cluster (fold cluster_step (zip es [1..<1 + length es]) (cluster_step (e, 0) ?init))"
    by (simp only: clusterEvents_def z fold_simps)
  also have "\<dots> = close_cluster (fold cluster_step (zip es [1..<1 + length es]) ?st)"
    using s by simp
  also have "\<dots> = greedy_from [e] (start e) (endt e) es"
    unfolding ih by simp
  finally show ?thesis by (simp add: Cons greedy_clusters_def)
qed

lemma greedy_from_concat:
  "concat (map cl_events (greedy_from cur cs ce es)) = cur @ es"
  by (induction es arbitrary: cur cs ce) simp_all

lemma greedy_from_inv:
  assumes "cur \<noteq> []" and "cs = start (hd cur)" and "ce = Max (endt ` set cur)"
    and "sorted (map start (cur @ es))" and "c \<in> set (greedy_from cur cs ce es)"
  shows "cl_events c \<noteq> [] \<and> cl_start c = start (hd (cl_events c))
       \<and> cl_end c = Max (endt ` set (cl_events c)) \<and> sorted (map start (cl_events c))"
  using assms
proof (induction es arbitrary: cur cs ce)
  case Nil
  then show ?case by simp
next
  case (Cons e es)
  show ?case
  proof (cases "start e \<le> ce + 10")
    case True
    have m: "max ce (endt e) = Max (endt ` set (cur @ [e]))"
      using Cons.prems(1,3) by (simp add: max.commute)
    have "c \<in> set (greedy_from (cur @ [e]) cs (max ce (endt e)) es)"
      using Cons.prems(5) True by simp
    moreover have "cs = start (hd (cur @ [e]))" using Cons.prems(1,2) by simp
    moreover have "sorted (map start ((cur @ [e]) @ es))" using Cons.prems(4) by simp
    ultimately show ?thesis using Cons.IH [of "cur @ [e]" cs "max ce (endt e)"] m by simp
  next
    case False
    then consider "c = \<lparr>cl_events = cur, cl_start = cs, cl_end = ce\<rparr>"
      | "c \<in> set (greedy_from [e] (start e) (endt e) es)"
      using Cons.prems(5) by auto
    then show ?thesis
    proof cases
      case 1
      then show ?thesis using Cons.prems(1-4) by (simp add: sorted_append)
    next
      case 2
      have "sorted (map start ([e] @ es))" using Cons.prems(4) by (simp add: sorted_append)
      then show ?thesis using Cons.IH [of "[e]" "start e" "endt e"] 2 by simp
    qed
  qed
qed

lemma sorted_hd_Min:
  "xs \<noteq> [] \<Longrightarrow> sorted (map f xs) \<Longrightarrow> f (hd xs) = Min (f ` set xs)"
  by (cases xs) (auto intro!: Min_eqI [symmetric])

lemma clusterEvents_bounds:
  assumes "sorted (map start evs)" and "c \<in> set (clusterEvents evs)"
  shows "cl_events c \<noteq> [] \<and> cl_start c = Min (start ` set (cl_events c))
       \<and> cl_end c = Max (endt ` set (cl_events c))"
proof (cases evs)
  case Nil
  with assms show ?thesis by (simp add: clusterEvents_greedy greedy_clusters_def)
next
  case (Cons e es)
  have "c \<in> set (greedy_from [e] (start e) (endt e) es)"
    using assms(2) Cons by (simp add: clusterEvents_greedy greedy_clusters_def)
  then have "cl_events c \<noteq> [] \<and> cl_start c = start (hd (cl_events c))
       \<and> cl_end c = Max (endt ` set (cl_events c)) \<and> sorted (map start (cl_events c))"
    using greedy_from_inv [of "[e]" "start e" "endt e" es c] assms(1) Cons by simp
  then show ?thesis using sorted_hd_Min [of "cl_events c" start] by simp
qed


lemma greedy_from_single:
  assumes "\<forall>e \<in> set es. start e \<le> hi \<and> lo \<le> endt e" and "lo \<le> ce" and "hi \<le> lo + 10"
  shows "\<exists>ce'. greedy_from cur cs ce es = [\<lparr>cl_events = cur @ es, cl_start = cs, cl_end = ce'\<rparr>]"
  using assms
proof (induction es arbitrary: cur ce)
  case Nil
  then show ?case by simp
next
  case (Cons e es)
  have j: "start e \<le> ce + 10" using Cons.prems by simp
  have "\<exists>ce'. greedy_from (cur @ [e]) cs (max ce (endt e)) es
          = [\<lparr>cl_events = (cur @ [e]) @ es, cl_start = cs, cl_end = ce'\<rparr>]"
    by (rule Cons.IH) (use Cons.prems in auto)
  then show ?case using j by simp
qed

lemma fold_count_event:
  "fold count_event es (ec, chs) = (ec', chs') \<Longrightarrow>
     hfo ec' = hfo ec + length (filter (\<lambda>e. str_includes (etype e) ''HFO'') es)
   \<and> ied ec' = ied ec + length (filter (\<lambda>e. \<not> str_includes (etype e) ''HFO''
                                          \<and> str_includes (etype e) ''IED'') es)
   \<and> rhythmic ec' = rhythmic ec + length (filter (\<lambda>e. \<not> str_includes (etype e) ''HFO''
                                          \<and> \<not> str_includes (etype e) ''IED''
                                          \<and> str_includes (etype e) ''Rhythmic'') es)
   \<and> set chs' = set chs \<union> channel ` set es
   \<and> (distinct chs \<longrightarrow> distinct chs')"
proof (induction es arbitrary: ec chs)
  case Nil
  then show ?case by simp
next
  case (Cons e es)
  obtain ec1 chs1 where s: "count_event e (ec, chs) = (ec1, chs1)"
    by (cases "count_event e (ec, chs)")
  have f: "fold count_event es (ec1, chs1) = (ec', chs')"
    using Cons.prems s by simp
  note ih = Cons.IH [OF f]
  have c: "set chs1 = insert (channel e) (set chs)" "distinct chs \<longrightarrow> distinct chs1"
    using s by (auto simp: count_event_def Let_def split: if_splits)
  have h: "hfo ec1 = hfo ec + (if str_includes (etype e) ''HFO'' then 1 else 0)"
    using s by (auto simp: count_event_def Let_def split: if_splits)
  have i: "ied ec1 = ied ec + (if \<not> str_includes (etype e) ''HFO''
                                  \<and> str_includes (etype e) ''IED'' then 1 else 0)"
    using s by (auto simp: count_event_def Let_def split: if_splits)
  have r: "rhythmic ec1 = rhythmic ec + (if \<not> str_includes (etype e) ''HFO''
                                  \<and> \<not> str_includes (etype e) ''IED''
                                  \<and> str_includes (etype e) ''Rhythmic'' then 1 else 0)"
    using s by (auto simp: count_event_def Let_def split: if_splits)
  show ?case using ih c h i r by auto
qed

lemma count_filters:
  "length (filter (\<lambda>e. str_includes (etype e) ''HFO'') es)
   + length (filter (\<lambda>e. \<not> str_includes (etype e) ''HFO'' \<and> str_includes (etype e) ''IED'') es)
   + length (filter (\<lambda>e. \<not> str_includes (etype e) ''HFO'' \<and> \<not> str_includes (etype e) ''IED''
                          \<and> str_includes (etype e) ''Rhythmic'') es)
   = length (filter (\<lambda>e. recognised (etype e)) es)"
  by (induction es) (auto simp: recognised_def)

lemma toRegion_fields:
  "rg_start (toRegion nch r c) = cl_start c"
  "rg_end (toRegion nch r c) = cl_end c"
  "eventCount (toRegion nch r c)
     = fst (fold count_event (cl_events c) (\<lparr>hfo = 0, ied = 0, rhythmic = 0\<rparr>, []))"
  "rg_channels (toRegion nch r c)
     = snd (fold count_event (cl_events c) (\<lparr>hfo = 0, ied = 0, rhythmic = 0\<rparr>, []))"
  "severity (toRegion nch r c) = severity_of (eventCount (toRegion nch r c))"
  "confidence (toRegion nch r c)
     = confidence_of (totalEvents (eventCount (toRegion nch r c))) (cl_end c - cl_start c)
         (length (rg_channels (toRegion nch r c))) nch r"
  by (simp_all add: toRegion_def split: prod.splits)

lemma toRegion_counts:
  "hfo (eventCount (toRegion nch r c))
     = length (filter (\<lambda>e. str_includes (etype e) ''HFO'') (cl_events c))"
  "ied (eventCount (toRegion nch r c))
     = length (filter (\<lambda>e. \<not> str_includes (etype e) ''HFO'' \<and> str_includes (etype e) ''IED'')
                 (cl_events c))"
  "rhythmic (eventCount (toRegion nch r c))
     = length (filter (\<lambda>e. \<not> str_includes (etype e) ''HFO'' \<and> \<not> str_includes (etype e) ''IED''
                          \<and> str_includes (etype e) ''Rhythmic'') (cl_events c))"
  "set (rg_channels (toRegion nch r c)) = channel ` set (cl_events c)"
  "distinct (rg_channels (toRegion nch r c))"
proof -
  obtain ec chs where f: "fold count_event (cl_events c) (\<lparr>hfo = 0, ied = 0, rhythmic = 0\<rparr>, []) = (ec, chs)"
    by (cases "fold count_event (cl_events c) (\<lparr>hfo = 0, ied = 0, rhythmic = 0\<rparr>, [])")
  note a = fold_count_event [OF f]
  show "hfo (eventCount (toRegion nch r c))
     = length (filter (\<lambda>e. str_includes (etype e) ''HFO'') (cl_events c))"
    using a by (simp add: toRegion_fields f)
  show "ied (eventCount (toRegion nch r c))
     = length (filter (\<lambda>e. \<not> str_includes (etype e) ''HFO'' \<and> str_includes (etype e) ''IED'')
                 (cl_events c))"
    using a by (simp add: toRegion_fields f)
  show "rhythmic (eventCount (toRegion nch r c))
     = length (filter (\<lambda>e. \<not> str_includes (etype e) ''HFO'' \<and> \<not> str_includes (etype e) ''IED''
                          \<and> str_includes (etype e) ''Rhythmic'') (cl_events c))"
    using a by (simp add: toRegion_fields f)
  show "set (rg_channels (toRegion nch r c)) = channel ` set (cl_events c)"
    using a by (simp add: toRegion_fields f)
  show "distinct (rg_channels (toRegion nch r c))"
    using a by (simp add: toRegion_fields f)
qed

lemma toRegion_total:
  "totalEvents (eventCount (toRegion nch r c))
     = length (filter (\<lambda>e. recognised (etype e)) (cl_events c))"
  unfolding totalEvents_def toRegion_counts by (rule count_filters)

lemma toRegion_total_labelled:
  "list_all (\<lambda>e. recognised (etype e)) (cl_events c) \<Longrightarrow>
     totalEvents (eventCount (toRegion nch r c)) = length (cl_events c)"
  by (simp add: toRegion_total list_all_iff)

lemma severity_of_rule:
  "severity_of ec =
     (if hfoRatio ec > 1 / 2 \<or> totalEvents ec > 10 then High
      else if hfoRatio ec > 1 / 5 \<or> totalEvents ec > 5 then Medium
      else Low)"
proof -
  have g: "js_gt (js_div (real (hfo ec)) (real (totalEvents ec))) c = (hfoRatio ec > c)"
    if "0 < c" for c
  proof (cases "totalEvents ec = 0")
    case True
    then have "hfo ec = 0" by (simp add: totalEvents_def)
    with True that show ?thesis by (simp add: js_div_def hfoRatio_def)
  next
    case False
    then show ?thesis by (simp add: js_div_def hfoRatio_def)
  qed
  show ?thesis by (simp add: severity_of_def Let_def g)
qed

lemma regions_of_mem:
  "r \<in> set (regions_of nch rnd n cs) \<Longrightarrow> \<exists>k < length cs. r = toRegion nch (rnd (n + k)) (cs ! k)"
  by (auto simp: regions_of_def in_set_enumerate_eq)

lemma regions_of_length: "length (regions_of nch rnd n cs) = length cs"
  by (simp add: regions_of_def)

lemma identify_mem:
  assumes "r \<in> set (identifyIctalRegions rnd n channels)"
  shows "\<exists>c k. c \<in> set (survivors channels) \<and> r = toRegion (length channels) (rnd (n + k)) c"
proof -
  have "r \<in> set (regions_of (length channels) rnd n (survivors channels))"
    using assms by (simp add: identifyIctalRegions_def set_sort_cmp)
  then obtain k where "k < length (survivors channels)"
    and "r = toRegion (length channels) (rnd (n + k)) (survivors channels ! k)"
    using regions_of_mem by blast
  then show ?thesis using nth_mem by blast
qed

lemma clusterEvents_concat: "concat (map cl_events (clusterEvents evs)) = evs"
  by (cases evs) (simp_all add: clusterEvents_greedy greedy_clusters_def greedy_from_concat)

lemma cluster_members:
  assumes "c \<in> set (clusterEvents evs)"
  shows "set (cl_events c) \<subseteq> set evs"
proof -
  have "set (cl_events c) \<subseteq> set (concat (map cl_events (clusterEvents evs)))"
    using assms by auto
  then show ?thesis by (simp only: clusterEvents_concat)
qed

lemma survivors_props:
  assumes "c \<in> set (survivors channels)"
  shows "3 \<le> length (cl_events c)" and "set (cl_events c) \<subseteq> set (allEvents channels)"
    and "cl_start c = Min (start ` set (cl_events c))"
    and "cl_end c = Max (endt ` set (cl_events c))"
proof -
  have m: "c \<in> set (clusterEvents (sortedEvents channels))" and l: "3 \<le> length (cl_events c)"
    using assms by (simp_all add: survivors_def)
  show "3 \<le> length (cl_events c)" by (rule l)
  show "set (cl_events c) \<subseteq> set (allEvents channels)"
    using cluster_members [OF m] by (simp add: sortedEvents_set)
  show "cl_start c = Min (start ` set (cl_events c))" "cl_end c = Max (endt ` set (cl_events c))"
    using clusterEvents_bounds [OF sortedEvents_sorted m] by simp_all
qed

lemma allEvents_mem:
  "e \<in> set (allEvents channels) \<Longrightarrow>
     \<exists>ch \<in> set channels. \<exists>ev \<in> set (events ch). e = pool (name ch) ev"
  by (auto simp: allEvents_def)

lemma pool_fields [simp]:
  "start (pool n e) = start e" "endt (pool n e) = endt e" "etype (pool n e) = etype e"
  "channel (pool n e) = n"
  by (simp_all add: pool_def)

lemma allEvents_ends:
  "ends_after_starts channels \<Longrightarrow> e \<in> set (allEvents channels) \<Longrightarrow> start e < endt e"
  by (auto simp: ends_after_starts_def list_all_iff dest!: allEvents_mem)

lemma allEvents_labelled:
  "labelled_events channels \<Longrightarrow> e \<in> set (allEvents channels) \<Longrightarrow> recognised (etype e)"
  by (auto simp: labelled_events_def list_all_iff dest!: allEvents_mem)

lemma survivors_duration:
  assumes "ends_after_starts channels" and "c \<in> set (survivors channels)"
  shows "0 < cl_end c - cl_start c"
proof -
  note p = survivors_props [OF assms(2)]
  have ne: "cl_events c \<noteq> []" using p(1) by auto
  then have "Min (start ` set (cl_events c)) \<in> start ` set (cl_events c)"
    by (intro Min_in) simp_all
  then obtain e where e: "e \<in> set (cl_events c)" and s: "start e = Min (start ` set (cl_events c))"
    by auto
  have "start e < endt e" using allEvents_ends [OF assms(1)] e p(2) by blast
  moreover have "endt e \<le> Max (endt ` set (cl_events c))" using e by simp
  ultimately show ?thesis using p(3,4) s by simp
qed

lemma survivors_channels:
  assumes "c \<in> set (survivors channels)"
  shows "0 < length channels"
proof -
  have "cl_events c \<noteq> []" using survivors_props(1) [OF assms] by auto
  then have "allEvents channels \<noteq> []" using survivors_props(2) [OF assms] by auto
  then show ?thesis by (auto simp: allEvents_def)
qed

lemma confidence_of_finite:
  assumes "0 < duration" and "0 < nch"
  shows "confidence_of tot duration sz nch r
           = Num (of_int (min 95 (round ((real tot / duration * 20 + real sz / real nch * 50)
                                          * (7 / 10 + r * (3 / 10))))))"
  using assms by (simp add: confidence_of_def js_div_def Let_def round_def min_def)

lemma labels [simp]:
  "str_includes ''IED (Intractal Epileptiform Discharge)'' ''IED''"
  "\<not> str_includes ''IED (Intractal Epileptiform Discharge)'' ''HFO''"
  "\<not> str_includes ''IED (Intractal Epileptiform Discharge)'' ''Rhythmic''"
  "str_includes ''HFO (High Frequency Oscillation)'' ''HFO''"
  "\<not> str_includes ''Rhythmic Discharge'' ''HFO''"
  "\<not> str_includes ''Rhythmic Discharge'' ''IED''"
  "str_includes ''Rhythmic Discharge'' ''Rhythmic''"
  by simp_all

lemma four_ied_sorted: "sortedEvents [four_ied_channel] = cl_events four_ied_cluster"
  by (simp add: sortedEvents_def allEvents_def four_ied_channel_def four_ied_cluster_def
        sort_cmp_def sample_event_def pool_def)

lemma four_ied_survivors: "survivors [four_ied_channel] = [four_ied_cluster]"
  by (simp add: survivors_def four_ied_sorted clusterEvents_greedy greedy_clusters_def
        four_ied_cluster_def sample_event_def pool_def)

lemma four_ied_identify:
  "identifyIctalRegions (\<lambda>k. 1 / 2) 0 [four_ied_channel] = [four_ied_region]"
  by (simp add: identifyIctalRegions_def four_ied_survivors regions_of_def sort_cmp_def
        toRegion_def count_event_def four_ied_cluster_def sample_event_def pool_def
        severity_of_def totalEvents_def confidence_of_def js_div_def four_ied_region_def Let_def)

subsection \<open>Bounds and counts of a region\<close>

text \<open>
  Claim C5. Every region that \<open>identifyIctalRegions\<close> emits is made from a cluster of at
  least 3 pooled events, its members; the region's start is the least start of its
  members and its end their greatest end; and when every member's type label includes
  HFO, IED or Rhythmic (as the labels of the three detectors do), the three counts add up
  to the number of members.
\<close>

theorem region_bounds_and_counts:
  assumes "r \<in> set (identifyIctalRegions rnd n channels)"
  shows "\<exists>c \<in> set (survivors channels). \<exists>k.
           r = toRegion (length channels) (rnd (n + k)) c
         \<and> 3 \<le> length (cl_events c)
         \<and> set (cl_events c) \<subseteq> set (allEvents channels)
         \<and> rg_start r = Min (start ` set (cl_events c))
         \<and> rg_end r = Max (endt ` set (cl_events c))
         \<and> (list_all (\<lambda>e. recognised (etype e)) (cl_events c) \<longrightarrow>
              hfo (eventCount r) + ied (eventCount r) + rhythmic (eventCount r)
                = length (cl_events c))"
proof -
  obtain c k where c: "c \<in> set (survivors channels)"
    and r: "r = toRegion (length channels) (rnd (n + k)) c"
    using identify_mem [OF assms] by blast
  note p = survivors_props [OF c]
  have "list_all (\<lambda>e. recognised (etype e)) (cl_events c) \<longrightarrow>
          hfo (eventCount r) + ied (eventCount r) + rhythmic (eventCount r) = length (cl_events c)"
    using toRegion_total_labelled [of c "length channels" "rnd (n + k)"]
    by (simp add: r totalEvents_def)
  then show ?thesis using c r p by (auto simp: toRegion_fields)
qed

theorem region_bounds_and_counts_witness:
  "four_ied_region \<in> set (identifyIctalRegions (\<lambda>k. 1 / 2) 0 [four_ied_channel])
   \<and> list_all (\<lambda>e. recognised (etype e)) (cl_events four_ied_cluster)
   \<and> rg_start four_ied_region = Min (start ` set (cl_events four_ied_cluster))
   \<and> rg_end four_ied_region = Max (endt ` set (cl_events four_ied_cluster))
   \<and> hfo (eventCount four_ied_region) + ied (eventCount four_ied_region)
       + rhythmic (eventCount four_ied_region) = length (cl_events four_ied_cluster)"
proof -
  have h: "four_ied_region \<in> set (identifyIctalRegions (\<lambda>k. 1 / 2) 0 [four_ied_channel])"
    by (simp add: four_ied_identify)
  have l: "list_all (\<lambda>e. recognised (etype e)) (cl_events four_ied_cluster)"
    by (simp add: four_ied_cluster_def sample_event_def recognised_def)
  obtain c where c: "c \<in> set (survivors [four_ied_channel])"
    and b: "rg_start four_ied_region = Min (start ` set (cl_events c))"
           "rg_end four_ied_region = Max (endt ` set (cl_events c))"
    and n: "list_all (\<lambda>e. recognised (etype e)) (cl_events c) \<longrightarrow>
              hfo (eventCount four_ied_region) + ied (eventCount four_ied_region)
                + rhythmic (eventCount four_ied_region) = length (cl_events c)"
    using region_bounds_and_counts [OF h] by blast
  have "c = four_ied_cluster" using c by (simp add: four_ied_survivors)
  then show ?thesis using h l b n by blast
qed

lemma sort_cmp_single: "sort_cmp cmp [x] = [x]"
  by (simp add: sort_cmp_def)

lemma four_ied_scenario:
  assumes len: "length (events ch) = 4"
    and ied: "list_all (\<lambda>e. str_includes (etype e) ''IED'' \<and> \<not> str_includes (etype e) ''HFO'') (events ch)"
    and span: "list_all (\<lambda>e. t0 \<le> start e \<and> start e \<le> t0 + 5 \<and> t0 \<le> endt e \<and> endt e \<le> t0 + 5)
                 (events ch)"
  shows "\<exists>r. identifyIctalRegions rnd n [ch] = [r]
            \<and> eventCount r = \<lparr>hfo = 0, ied = 4, rhythmic = 0\<rparr> \<and> severity r = Low"
proof -
  let ?evs = "sortedEvents [ch]"
  have all: "allEvents [ch] = map (pool (name ch)) (events ch)"
    by (simp add: allEvents_def)
  have l: "length ?evs = 4" by (simp add: sortedEvents_length all len)
  have s: "set ?evs = pool (name ch) ` set (events ch)" by (simp add: sortedEvents_set all)
  have b: "\<forall>e \<in> set ?evs. start e \<le> t0 + 5 \<and> t0 \<le> endt e"
    using span by (auto simp: s list_all_iff)
  have t: "\<forall>e \<in> set ?evs. str_includes (etype e) ''IED'' \<and> \<not> str_includes (etype e) ''HFO''"
    using ied by (auto simp: s list_all_iff)
  obtain e es where ev: "?evs = e # es" using l by (cases ?evs) auto
  have "\<exists>ce'. greedy_from [e] (start e) (endt e) es
           = [\<lparr>cl_events = [e] @ es, cl_start = start e, cl_end = ce'\<rparr>]"
    by (rule greedy_from_single [where lo = t0 and hi = "t0 + 5"]) (use b ev in auto)
  then obtain ce' where g: "clusterEvents ?evs = [\<lparr>cl_events = ?evs, cl_start = start e, cl_end = ce'\<rparr>]"
    by (auto simp: clusterEvents_greedy greedy_clusters_def ev)
  let ?c = "\<lparr>cl_events = ?evs, cl_start = start e, cl_end = ce'\<rparr>"
  have sv: "survivors [ch] = [?c]" by (simp add: survivors_def g l)
  let ?r = "toRegion 1 (rnd n) ?c"
  have id: "identifyIctalRegions rnd n [ch] = [?r]"
    by (simp add: identifyIctalRegions_def sv regions_of_def sort_cmp_single)
  have f0: "filter (\<lambda>e. str_includes (etype e) ''HFO'') ?evs = []"
    using t by (auto simp: filter_empty_conv)
  have f1: "filter (\<lambda>e. \<not> str_includes (etype e) ''HFO'' \<and> str_includes (etype e) ''IED'') ?evs = ?evs"
    using t by (auto simp: filter_id_conv)
  have f2: "filter (\<lambda>e. \<not> str_includes (etype e) ''HFO'' \<and> \<not> str_includes (etype e) ''IED''
                          \<and> str_includes (etype e) ''Rhythmic'') ?evs = []"
    using t by (auto simp: filter_empty_conv)
  have h: "hfo (eventCount ?r) = 0" and i: "ied (eventCount ?r) = 4"
    and rh: "rhythmic (eventCount ?r) = 0"
    unfolding toRegion_counts by (simp_all add: f0 f1 f2 l)
  have ec: "eventCount ?r = \<lparr>hfo = 0, ied = 4, rhythmic = 0\<rparr>"
    using h i rh by (cases "eventCount ?r") simp
  have "severity ?r = severity_of \<lparr>hfo = 0, ied = 4, rhythmic = 0\<rparr>"
    by (simp only: toRegion_fields(5) ec)
  also have "\<dots> = Low"
    by (simp add: severity_of_rule hfoRatio_def totalEvents_def)
  finally show ?thesis using id ec by blast
qed

subsection \<open>Severity\<close>

text \<open>
  Claim C3. For every region that \<open>identifyIctalRegions\<close> emits (each made from a cluster
  of at least 3 events), with \<open>totalEvents\<close> the sum of its three counts and
  \<open>hfoRatio = eventCount.hfo / totalEvents\<close>: the severity is high if \<open>hfoRatio > 0.5\<close> or
  \<open>totalEvents > 10\<close>, otherwise medium if \<open>hfoRatio > 0.2\<close> or \<open>totalEvents > 5\<close>, otherwise
  low. And a channel with exactly four events, all labelled IED and not HFO, all within
  a span of 5 seconds, gives exactly one region, with \<open>eventCount.ied = 4\<close> and severity
  low.
\<close>

theorem severity_rule:
  "(\<forall>r \<in> set (identifyIctalRegions rnd n channels).
      severity r =
        (if hfoRatio (eventCount r) > 1 / 2 \<or> totalEvents (eventCount r) > 10 then High
         else if hfoRatio (eventCount r) > 1 / 5 \<or> totalEvents (eventCount r) > 5 then Medium
         else Low))
   \<and> (length (events ch) = 4
      \<and> list_all (\<lambda>e. str_includes (etype e) ''IED'' \<and> \<not> str_includes (etype e) ''HFO'') (events ch)
      \<and> list_all (\<lambda>e. t0 \<le> start e \<and> start e \<le> t0 + 5 \<and> t0 \<le> endt e \<and> endt e \<le> t0 + 5)
           (events ch)
      \<longrightarrow> (\<exists>r. identifyIctalRegions rnd n [ch] = [r]
               \<and> eventCount r = \<lparr>hfo = 0, ied = 4, rhythmic = 0\<rparr> \<and> severity r = Low))"
proof -
  have a: "severity r =
        (if hfoRatio (eventCount r) > 1 / 2 \<or> totalEvents (eventCount r) > 10 then High
         else if hfoRatio (eventCount r) > 1 / 5 \<or> totalEvents (eventCount r) > 5 then Medium
         else Low)" if h: "r \<in> set (identifyIctalRegions rnd n channels)" for r
  proof -
    obtain c k where "r = toRegion (length channels) (rnd (n + k)) c"
      using identify_mem [OF h] by blast
    then have "severity r = severity_of (eventCount r)" by (simp only: toRegion_fields(5))
    then show ?thesis by (simp only: severity_of_rule)
  qed
  show ?thesis using a four_ied_scenario [of ch t0 rnd n] by blast
qed

theorem severity_rule_witness:
  "four_ied_region \<in> set (identifyIctalRegions (\<lambda>k. 1 / 2) 0 [four_ied_channel])
   \<and> severity four_ied_region = Low
   \<and> \<not> (hfoRatio (eventCount four_ied_region) > 1 / 5 \<or> totalEvents (eventCount four_ied_region) > 5)
   \<and> length (events four_ied_channel) = 4
   \<and> (\<exists>r. identifyIctalRegions (\<lambda>k. 1 / 2) 0 [four_ied_channel] = [r]
          \<and> eventCount r = \<lparr>hfo = 0, ied = 4, rhythmic = 0\<rparr> \<and> severity r = Low)"
proof -
  note t = severity_rule [of "\<lambda>k. 1 / 2" 0 "[four_ied_channel]" four_ied_channel 0]
  have h: "four_ied_region \<in> set (identifyIctalRegions (\<lambda>k. 1 / 2) 0 [four_ied_channel])"
    by (simp add: four_ied_identify)
  have q: "\<not> (hfoRatio (eventCount four_ied_region) > 1 / 5
             \<or> totalEvents (eventCount four_ied_region) > 5)"
    by (simp add: four_ied_region_def hfoRatio_def totalEvents_def)
  have "severity four_ied_region =
        (if hfoRatio (eventCount four_ied_region) > 1 / 2
            \<or> totalEvents (eventCount four_ied_region) > 10 then High
         else if hfoRatio (eventCount four_ied_region) > 1 / 5
            \<or> totalEvents (eventCount four_ied_region) > 5 then Medium
         else Low)"
    using t h by blast
  then have s: "severity four_ied_region = Low"
    by (simp add: four_ied_region_def hfoRatio_def totalEvents_def)
  have l: "length (events four_ied_channel) = 4" by (simp add: four_ied_channel_def)
  have i: "list_all (\<lambda>e. str_includes (etype e) ''IED'' \<and> \<not> str_includes (etype e) ''HFO'')
             (events four_ied_channel)"
    by (simp add: four_ied_channel_def sample_event_def)
  have p: "list_all (\<lambda>e. 0 \<le> start e \<and> start e \<le> 0 + 5 \<and> 0 \<le> endt e \<and> endt e \<le> 0 + 5)
             (events four_ied_channel)"
    by (simp add: four_ied_channel_def sample_event_def)
  have "\<exists>r. identifyIctalRegions (\<lambda>k. 1 / 2) 0 [four_ied_channel] = [r]
          \<and> eventCount r = \<lparr>hfo = 0, ied = 4, rhythmic = 0\<rparr> \<and> severity r = Low"
    using t l i p by blast
  then show ?thesis using h s q l by blast
qed

subsection \<open>The divisions of the clusterer\<close>

text \<open>
  Claim C10, as the code has it. Let every event end after it starts and carry a type
  label that includes HFO, IED or Rhythmic (as the labels of the detectors and of the
  demo generator do). Then for
  every cluster that survives the filter of at least 3 events, every divisor of the
  region computation is positive: \<open>totalEvents\<close> is the number of members, at least 3;
  the cluster's \<open>end - start\<close> is positive; the number of channels is positive. So the
  three quotients are finite numbers and so is the confidence: no division gives
  \<open>NaN\<close> or an infinity.
\<close>

theorem divisions_defined:
  assumes wf: "ends_after_starts channels"
    and lab: "labelled_events channels"
    and c: "c \<in> set (survivors channels)"
  shows "totalEvents (eventCount (toRegion (length channels) r c)) = length (cl_events c)
       \<and> 0 < totalEvents (eventCount (toRegion (length channels) r c))
       \<and> 0 < cl_end c - cl_start c
       \<and> 0 < length channels
       \<and> js_div (real (hfo (eventCount (toRegion (length channels) r c))))
                (real (totalEvents (eventCount (toRegion (length channels) r c))))
           = Num (hfoRatio (eventCount (toRegion (length channels) r c)))
       \<and> js_div (real (totalEvents (eventCount (toRegion (length channels) r c))))
                (cl_end c - cl_start c)
           = Num (real (length (cl_events c)) / (cl_end c - cl_start c))
       \<and> js_div (real (length (rg_channels (toRegion (length channels) r c))))
                (real (length channels))
           = Num (real (length (rg_channels (toRegion (length channels) r c)))
                    / real (length channels))
       \<and> (\<exists>m. confidence (toRegion (length channels) r c) = Num (of_int m))"
proof -
  let ?R = "toRegion (length channels) r c"
  note p = survivors_props [OF c]
  have "list_all (\<lambda>e. recognised (etype e)) (cl_events c)"
    using allEvents_labelled [OF lab] p(2) by (auto simp: list_all_iff)
  then have t: "totalEvents (eventCount ?R) = length (cl_events c)"
    by (rule toRegion_total_labelled)
  have tp: "0 < totalEvents (eventCount ?R)" using t p(1) by linarith
  have d: "0 < cl_end c - cl_start c" by (rule survivors_duration [OF wf c])
  have nc: "0 < length channels" by (rule survivors_channels [OF c])
  have q1: "js_div (real (hfo (eventCount ?R))) (real (totalEvents (eventCount ?R)))
              = Num (hfoRatio (eventCount ?R))"
    using tp by (simp add: js_div_def hfoRatio_def)
  have q2: "js_div (real (totalEvents (eventCount ?R))) (cl_end c - cl_start c)
              = Num (real (length (cl_events c)) / (cl_end c - cl_start c))"
    using d by (simp add: js_div_def t)
  have q3: "js_div (real (length (rg_channels ?R))) (real (length channels))
              = Num (real (length (rg_channels ?R)) / real (length channels))"
    using nc by (simp add: js_div_def)
  have q4: "\<exists>m. confidence ?R = Num (of_int m)"
    unfolding toRegion_fields(6) confidence_of_finite [OF d nc] by blast
  from t tp d nc q1 q2 q3 q4 show ?thesis by blast
qed

theorem divisions_defined_witness:
  "ends_after_starts [four_ied_channel] \<and> labelled_events [four_ied_channel]
   \<and> four_ied_cluster \<in> set (survivors [four_ied_channel])
   \<and> totalEvents (eventCount (toRegion (length [four_ied_channel]) (1 / 2) four_ied_cluster)) = 4
   \<and> 0 < cl_end four_ied_cluster - cl_start four_ied_cluster
   \<and> (\<exists>m. confidence (toRegion (length [four_ied_channel]) (1 / 2) four_ied_cluster) = Num (of_int m))"
proof -
  have w: "ends_after_starts [four_ied_channel]"
    by (simp add: ends_after_starts_def four_ied_channel_def sample_event_def)
  have l: "labelled_events [four_ied_channel]"
    by (simp add: labelled_events_def four_ied_channel_def sample_event_def recognised_def)
  have c: "four_ied_cluster \<in> set (survivors [four_ied_channel])"
    by (simp add: four_ied_survivors)
  have n: "length (cl_events four_ied_cluster) = 4" by (simp add: four_ied_cluster_def)
  show ?thesis using divisions_defined [OF w l c, of "1 / 2"] w l c n by simp
qed

lemma unlabelled_survivors: "survivors [unlabelled_channel] = [unlabelled_cluster]"
  by (simp add: survivors_def sortedEvents_def allEvents_def sort_cmp_def clusterEvents_greedy
        greedy_clusters_def unlabelled_channel_def unlabelled_cluster_def sample_event_def pool_def)

text \<open>
  Claim C10 as stated fails for events under a label that \<open>count_event\<close> does not count:
  the filter counts the events of the cluster, \<open>totalEvents\<close> only those under one of the
  three labels. Three events labelled otherwise, each ending after it starts, survive
  the filter with \<open>totalEvents = 0\<close>, and \<open>hfoRatio\<close> is \<open>0 / 0\<close>.
\<close>

theorem divisions_unlabelled_counterexample:
  "ends_after_starts [unlabelled_channel]
   \<and> survivors [unlabelled_channel] = [unlabelled_cluster]
   \<and> length (cl_events unlabelled_cluster) = 3
   \<and> totalEvents (eventCount (toRegion 1 0 unlabelled_cluster)) = 0
   \<and> js_div (real (hfo (eventCount (toRegion 1 0 unlabelled_cluster))))
              (real (totalEvents (eventCount (toRegion 1 0 unlabelled_cluster)))) = NaN"
proof -
  have a: "ends_after_starts [unlabelled_channel]"
    by (simp add: ends_after_starts_def unlabelled_channel_def sample_event_def)
  have e: "eventCount (toRegion 1 0 unlabelled_cluster) = \<lparr>hfo = 0, ied = 0, rhythmic = 0\<rparr>"
    by (simp add: toRegion_def count_event_def unlabelled_cluster_def sample_event_def pool_def
          Let_def)
  have l: "length (cl_events unlabelled_cluster) = 3"
    by (simp add: unlabelled_cluster_def)
  show ?thesis
    unfolding e by (simp add: a unlabelled_survivors l totalEvents_def js_div_def)
qed



subsection \<open>Greedy clustering\<close>





section \<open>Properties of the analysis panel\<close>

lemma risk_score_formula:
  "risk_score h i r g =
     round (100 * (4 / 10 * min (real h / 50) 1 + 3 / 10 * min (real i / 50) 1
                   + 1 / 10 * min (real r / 50) 1 + 2 / 10 * min (real g / 5) 1))"
  by (simp add: risk_score_def Let_def algebra_simps)

lemma risk_score_range: "0 \<le> risk_score h i r g \<and> risk_score h i r g \<le> 100"
proof -
  define a where "a = min (real h / 50) 1"
  define b where "b = min (real i / 50) 1"
  define c where "c = min (real r / 50) 1"
  define d where "d = min (real g / 5) 1"
  have ab: "0 \<le> a \<and> a \<le> 1" "0 \<le> b \<and> b \<le> 1" "0 \<le> c \<and> c \<le> 1" "0 \<le> d \<and> d \<le> 1"
    unfolding a_def b_def c_def d_def by (simp_all add: min_def)
  define x where "x = (a * (4 / 10) + b * (3 / 10) + c * (1 / 10) + d * (2 / 10)) * 100"
  have x: "0 \<le> x \<and> x \<le> 100" unfolding x_def using ab by auto
  have r: "risk_score h i r g = round x"
    by (simp add: risk_score_def Let_def x_def a_def b_def c_def d_def)
  have "round (0::real) \<le> round x" using x by (intro round_mono) simp
  moreover have "round x \<le> round (100::real)" using x by (intro round_mono) simp
  ultimately show ?thesis unfolding r by simp
qed

lemma fold_analyse_event:
  "fold (analyse_event rnd ch) es (pc, aes, n) = (pc', aes', n') \<Longrightarrow>
     pc_hfo pc' = pc_hfo pc + length (filter (\<lambda>e. str_includes (etype e) ''HFO'') es)
   \<and> pc_ied pc' = pc_ied pc + length (filter (\<lambda>e. \<not> str_includes (etype e) ''HFO''
                                          \<and> str_includes (etype e) ''IED'') es)
   \<and> pc_rhythmic pc' = pc_rhythmic pc + length (filter (\<lambda>e. \<not> str_includes (etype e) ''HFO''
                                          \<and> \<not> str_includes (etype e) ''IED''
                                          \<and> str_includes (etype e) ''Rhythmic'') es)
   \<and> length aes' = length aes + length es"
proof (induction es arbitrary: pc aes n)
  case Nil
  then show ?case by simp
next
  case (Cons e es)
  obtain pc1 aes1 n1 where s: "analyse_event rnd ch e (pc, aes, n) = (pc1, aes1, n1)"
    by (cases "analyse_event rnd ch e (pc, aes, n)") auto
  have f: "fold (analyse_event rnd ch) es (pc1, aes1, n1) = (pc', aes', n')"
    using Cons.prems s by simp
  note ih = Cons.IH [OF f]
  have pc1: "pc1 = (if str_includes (etype e) ''HFO'' then pc\<lparr>pc_hfo := pc_hfo pc + 1\<rparr>
                 else if str_includes (etype e) ''IED'' then pc\<lparr>pc_ied := pc_ied pc + 1\<rparr>
                 else if str_includes (etype e) ''Rhythmic'' then pc\<lparr>pc_rhythmic := pc_rhythmic pc + 1\<rparr>
                 else pc)"
    and l: "length aes1 = Suc (length aes)"
    using s by (auto simp: analyse_event_def Let_def split: prod.splits)
  show ?case using ih l by (auto simp: pc1)
qed

lemma fold_analyse_channel:
  "fold (analyse_channel rnd) channels (pc, aes, n) = (pc', aes', n') \<Longrightarrow>
     pc_hfo pc' = pc_hfo pc
        + length (filter (\<lambda>e. str_includes (etype e) ''HFO'') (concat (map events channels)))
   \<and> pc_ied pc' = pc_ied pc
        + length (filter (\<lambda>e. \<not> str_includes (etype e) ''HFO'' \<and> str_includes (etype e) ''IED'')
                    (concat (map events channels)))
   \<and> pc_rhythmic pc' = pc_rhythmic pc
        + length (filter (\<lambda>e. \<not> str_includes (etype e) ''HFO'' \<and> \<not> str_includes (etype e) ''IED''
                             \<and> str_includes (etype e) ''Rhythmic'') (concat (map events channels)))
   \<and> length aes' = length aes + length (concat (map events channels))"
proof (induction channels arbitrary: pc aes n)
  case Nil
  then show ?case by simp
next
  case (Cons ch chs)
  obtain pc1 aes1 n1 where s: "analyse_channel rnd ch (pc, aes, n) = (pc1, aes1, n1)"
    by (cases "analyse_channel rnd ch (pc, aes, n)") auto
  have f: "fold (analyse_channel rnd) chs (pc1, aes1, n1) = (pc', aes', n')"
    using Cons.prems s by simp
  note ih = Cons.IH [OF f]
  note st = fold_analyse_event [OF s [unfolded analyse_channel_def]]
  show ?case using ih st by simp
qed

lemma generate_fields:
  assumes "fold (analyse_channel rnd) channels
             (\<lparr>pc_hfo = 0, pc_ied = 0, pc_rhythmic = 0, pc_total = 0\<rparr>, [], 0) = (pc0, aes, n)"
  shows "pc_hfo (patternCounts (generateAnalysisResults rnd channels)) = pc_hfo pc0"
    and "pc_ied (patternCounts (generateAnalysisResults rnd channels)) = pc_ied pc0"
    and "pc_rhythmic (patternCounts (generateAnalysisResults rnd channels)) = pc_rhythmic pc0"
    and "pc_total (patternCounts (generateAnalysisResults rnd channels))
           = pc_hfo pc0 + pc_ied pc0 + pc_rhythmic pc0"
    and "ictalRegions (generateAnalysisResults rnd channels)
           = identifyIctalRegions_panel rnd n channels"
    and "epilepsyRisk (generateAnalysisResults rnd channels)
           = risk_score (pc_hfo pc0) (pc_ied pc0) (pc_rhythmic pc0)
               (length (identifyIctalRegions_panel rnd n channels))"
  using assms by (simp_all add: generateAnalysisResults_def Let_def)

lemma panel_length:
  "length (identifyIctalRegions_panel rnd n channels) = length (survivors channels)"
  by (simp add: identifyIctalRegions_panel_def length_sort_cmp regions_of_length)

text \<open>
  Claim C7. The risk score of \<open>generateAnalysisResults\<close> is
  \<open>round(100 * (0.4 * min(hfoCount/50, 1) + 0.3 * min(iedCount/50, 1)
  + 0.1 * min(rhythmicCount/50, 1) + 0.2 * min(regionCount/5, 1)))\<close> and lies between 0 and
  100, where the three counts are the pattern counts of the result, which count the
  events of all channels under the first label they include, and \<open>regionCount\<close> is the
  number of regions of the result, one for each cluster of at least 3 events.
\<close>

theorem epilepsy_risk:
  "epilepsyRisk (generateAnalysisResults rnd channels)
     = round (100 * (4 / 10 * min (real (pc_hfo (patternCounts (generateAnalysisResults rnd channels))) / 50) 1
                   + 3 / 10 * min (real (pc_ied (patternCounts (generateAnalysisResults rnd channels))) / 50) 1
                   + 1 / 10 * min (real (pc_rhythmic (patternCounts (generateAnalysisResults rnd channels))) / 50) 1
                   + 2 / 10 * min (real (length (ictalRegions (generateAnalysisResults rnd channels))) / 5) 1))
   \<and> 0 \<le> epilepsyRisk (generateAnalysisResults rnd channels)
   \<and> epilepsyRisk (generateAnalysisResults rnd channels) \<le> 100
   \<and> pc_hfo (patternCounts (generateAnalysisResults rnd channels))
       = length (filter (\<lambda>e. str_includes (etype e) ''HFO'') (concat (map events channels)))
   \<and> pc_ied (patternCounts (generateAnalysisResults rnd channels))
       = length (filter (\<lambda>e. \<not> str_includes (etype e) ''HFO'' \<and> str_includes (etype e) ''IED'')
                   (concat (map events channels)))
   \<and> pc_rhythmic (patternCounts (generateAnalysisResults rnd channels))
       = length (filter (\<lambda>e. \<not> str_includes (etype e) ''HFO'' \<and> \<not> str_includes (etype e) ''IED''
                            \<and> str_includes (etype e) ''Rhythmic'') (concat (map events channels)))
   \<and> length (ictalRegions (generateAnalysisResults rnd channels)) = length (survivors channels)"
proof -
  obtain pc0 aes n where f: "fold (analyse_channel rnd) channels
             (\<lparr>pc_hfo = 0, pc_ied = 0, pc_rhythmic = 0, pc_total = 0\<rparr>, [], 0) = (pc0, aes, n)"
    by (metis prod_cases3)
  note g = generate_fields [OF f]
  note c = fold_analyse_channel [OF f]
  have a: "epilepsyRisk (generateAnalysisResults rnd channels)
     = round (100 * (4 / 10 * min (real (pc_hfo (patternCounts (generateAnalysisResults rnd channels))) / 50) 1
                   + 3 / 10 * min (real (pc_ied (patternCounts (generateAnalysisResults rnd channels))) / 50) 1
                   + 1 / 10 * min (real (pc_rhythmic (patternCounts (generateAnalysisResults rnd channels))) / 50) 1
                   + 2 / 10 * min (real (length (ictalRegions (generateAnalysisResults rnd channels))) / 5) 1))"
    unfolding g by (rule risk_score_formula)
  have b: "0 \<le> epilepsyRisk (generateAnalysisResults rnd channels)
         \<and> epilepsyRisk (generateAnalysisResults rnd channels) \<le> 100"
    unfolding g by (rule risk_score_range)
  have h: "pc_hfo (patternCounts (generateAnalysisResults rnd channels))
       = length (filter (\<lambda>e. str_includes (etype e) ''HFO'') (concat (map events channels)))"
    unfolding g using c by simp
  have i: "pc_ied (patternCounts (generateAnalysisResults rnd channels))
       = length (filter (\<lambda>e. \<not> str_includes (etype e) ''HFO'' \<and> str_includes (etype e) ''IED'')
                   (concat (map events channels)))"
    unfolding g using c by simp
  have r: "pc_rhythmic (patternCounts (generateAnalysisResults rnd channels))
       = length (filter (\<lambda>e. \<not> str_includes (etype e) ''HFO'' \<and> \<not> str_includes (etype e) ''IED''
                            \<and> str_includes (etype e) ''Rhythmic'') (concat (map events channels)))"
    unfolding g using c by simp
  have l: "length (ictalRegions (generateAnalysisResults rnd channels)) = length (survivors channels)"
    unfolding g by (rule panel_length)
  note b1 = conjunct1 [OF b] and b2 = conjunct2 [OF b]
  show ?thesis by (intro conjI a b1 b2 h i r l)
qed

text \<open>
  Claim C9. For a recording with no channels the detector pass returns without a
  change, the pool of events and the list of analysed events are empty, both versions of
  \<open>identifyIctalRegions\<close> return no region, all pattern counts and all three percentages
  are 0, and the risk score is 0.
\<close>

theorem empty_recording:
  "detectPatterns rnd [] n = Some ([], n)
   \<and> allEvents [] = []
   \<and> analysisEvents rnd [] = []
   \<and> identifyIctalRegions rnd n [] = []
   \<and> ictalRegions (generateAnalysisResults rnd []) = []
   \<and> patternCounts (generateAnalysisResults rnd [])
       = \<lparr>pc_hfo = 0, pc_ied = 0, pc_rhythmic = 0, pc_total = 0\<rparr>
   \<and> patternPercentages (generateAnalysisResults rnd [])
       = \<lparr>pp_hfo = 0, pp_ied = 0, pp_rhythmic = 0\<rparr>
   \<and> epilepsyRisk (generateAnalysisResults rnd []) = 0"
proof -
  have s: "survivors [] = []"
    by (simp add: survivors_def sortedEvents_def allEvents_def sort_cmp_def clusterEvents_def
          close_cluster_def)
  have p: "identifyIctalRegions_panel rnd 0 [] = []"
    by (simp add: identifyIctalRegions_panel_def s regions_of_def sort_cmp_def)
  have i: "identifyIctalRegions rnd n [] = []"
    by (simp add: identifyIctalRegions_def s regions_of_def sort_cmp_def)
  have r: "risk_score 0 0 0 0 = 0" by (simp add: risk_score_def)
  show ?thesis
    by (simp add: allEvents_def analysisEvents_def i generateAnalysisResults_def p r)
qed

section \<open>Properties of the detectors\<close>

lemma replicate_num: "replicate (numeral k) x = x # replicate (pred_numeral k) x"
  by (simp add: numeral_eq_Suc)

lemma len: "length overlap_samples = 751"
  by (simp add: overlap_samples_def)

lemma starts_hfo:
  "scan_starts 751 25 12 0 = [0, 12, 24, 36, 48, 60, 72, 84, 96, 108, 120, 132, 144, 156, 168, 180, 192, 204, 216, 228, 240, 252, 264, 276, 288, 300, 312, 324, 336, 348, 360, 372, 384, 396, 408, 420, 432, 444, 456, 468, 480, 492, 504, 516, 528, 540, 552, 564, 576, 588, 600, 612, 624, 636, 648, 660, 672, 684, 696, 708, 720]"
  by (simp add: scan_starts.simps)

lemma hfo_fold:
  "fold (\<lambda>i. hfo_window 250 25 (slice overlap_samples i (i + 25)) i)
     [0, 12, 24, 36, 48, 60, 72, 84, 96, 108, 120, 132, 144, 156, 168, 180, 192, 204, 216, 228, 240, 252, 264, 276, 288, 300, 312, 324, 336, 348, 360, 372, 384, 396, 408, 420, 432, 444, 456, 468, 480, 492, 504, 516, 528, 540, 552, 564, 576, 588, 600, 612, 624, 636, 648, 660, 672, 684, 696, 708, 720] [] = [overlap_hfo]"
  apply (simp add: overlap_samples_def slice_def)
  apply (simp add: replicate_num hfo_window_def Let_def overlapping_def peakToPeak_def overlap_hfo_def)
  done


subsection \<open>The IED detector accepts no window\<close>

text \<open>
  The peak of a window is its sample of largest absolute value, so both slopes, taken
  from the peak to a sample 5 positions away, have the sign of the peak or are 0: they
  never have opposite signs while both exceed 10 in absolute value. Every iteration of
  the IED loop therefore leaves the events as they were and makes its one random draw.
\<close>

lemma maxAbs_inv:
  "maxAbs xs j (m, p) = (m', p') \<Longrightarrow>
     (\<forall>x \<in> set xs. \<bar>x\<bar> \<le> m') \<and> m \<le> m'
     \<and> ((m', p') = (m, p) \<or> (j \<le> p' \<and> p' < j + length xs \<and> \<bar>xs ! (p' - j)\<bar> = m'))"
proof (induction xs arbitrary: j m p)
  case Nil
  then show ?case by simp
next
  case (Cons x xs)
  have shift: "(x # xs) ! (q - j) = xs ! (q - (j + 1))" if "j + 1 \<le> q" for q
  proof -
    have "q - j = Suc (q - (j + 1))" using that by simp
    then show ?thesis by simp
  qed
  show ?case
  proof (cases "\<bar>x\<bar> > m")
    case True
    then have "maxAbs xs (j + 1) (\<bar>x\<bar>, j) = (m', p')" using Cons.prems by simp
    note ih = Cons.IH [OF this]
    have "(m', p') = (m, p) \<or> (j \<le> p' \<and> p' < j + length (x # xs) \<and> \<bar>(x # xs) ! (p' - j)\<bar> = m')"
    proof (cases "(m', p') = (\<bar>x\<bar>, j)")
      case True
      then show ?thesis by simp
    next
      case False
      then have "j + 1 \<le> p' \<and> p' < j + 1 + length xs \<and> \<bar>xs ! (p' - (j + 1))\<bar> = m'"
        using ih by blast
      then show ?thesis using shift [of p'] by simp
    qed
    then show ?thesis using ih True by auto
  next
    case False
    then have "maxAbs xs (j + 1) (m, p) = (m', p')" using Cons.prems by simp
    note ih = Cons.IH [OF this]
    have "(m', p') = (m, p) \<or> (j \<le> p' \<and> p' < j + length (x # xs) \<and> \<bar>(x # xs) ! (p' - j)\<bar> = m')"
    proof (cases "(m', p') = (m, p)")
      case True
      then show ?thesis by simp
    next
      case False
      then have "j + 1 \<le> p' \<and> p' < j + 1 + length xs \<and> \<bar>xs ! (p' - (j + 1))\<bar> = m'"
        using ih by blast
      then show ?thesis using shift [of p'] by simp
    qed
    then show ?thesis using ih False by auto
  qed
qed

lemma ied_never_classifies:
  assumes "maxAbs w 0 (0, 0) = (maxAmp, maxPos)"
  shows "\<not> ied_classify maxAmp (fst (ied_slopes w maxPos)) (snd (ied_slopes w maxPos))"
proof (cases "maxPos > 5 \<and> int maxPos < int (length w) - 5")
  case False
  then have "ied_slopes w maxPos = (0, 0)" by (simp only: ied_slopes_def if_False)
  then show ?thesis by (simp add: ied_classify_def)
next
  case True
  note inv = maxAbs_inv [OF assms]
  have bound: "\<forall>x \<in> set w. \<bar>x\<bar> \<le> maxAmp" using inv by blast
  have peak: "\<bar>w ! maxPos\<bar> = maxAmp" using inv True by auto
  have "maxPos - 5 < length w" "maxPos + 5 < length w" using True by linarith+
  then have b: "\<bar>w ! (maxPos - 5)\<bar> \<le> maxAmp" and a: "\<bar>w ! (maxPos + 5)\<bar> \<le> maxAmp"
    using bound by simp_all
  have sl: "ied_slopes w maxPos = ((w ! maxPos - w ! (maxPos - 5)) / 5,
                                   (w ! maxPos - w ! (maxPos + 5)) / 5)"
    using True by (simp add: ied_slopes_def)
  show ?thesis
  proof (cases "0 \<le> w ! maxPos")
    case True
    then have "w ! maxPos = maxAmp" using peak by simp
    then have "0 \<le> (w ! maxPos - w ! (maxPos - 5)) / 5" "0 \<le> (w ! maxPos - w ! (maxPos + 5)) / 5"
      using a b by simp_all
    then show ?thesis unfolding sl by (auto simp: ied_classify_def sgn_if)
  next
    case False
    then have "w ! maxPos = - maxAmp" using peak by simp
    then have "(w ! maxPos - w ! (maxPos - 5)) / 5 \<le> 0" "(w ! maxPos - w ! (maxPos + 5)) / 5 \<le> 0"
      using a b by simp_all
    then show ?thesis unfolding sl by (auto simp: ied_classify_def sgn_if)
  qed
qed

lemma ied_window_keeps: "ied_window rnd sampleRate windowSize w i (evs, n) = (evs, n + 1)"
proof -
  obtain maxAmp maxPos where m: "maxAbs w 0 (0, 0) = (maxAmp, maxPos)"
    by (cases "maxAbs w 0 (0, 0)")
  obtain sb sa where s: "ied_slopes w maxPos = (sb, sa)" by (cases "ied_slopes w maxPos")
  have "\<not> ied_classify maxAmp sb sa" using ied_never_classifies [OF m] by (simp add: s)
  then show ?thesis by (simp add: ied_window_def m s)
qed

lemma fold_ied_window:
  "fold (\<lambda>i. ied_window rnd sampleRate windowSize (f i) i) is (evs, n) = (evs, n + length is)"
  by (induction "is" arbitrary: n) (simp_all add: ied_window_keeps)

lemma detectIEDs_keeps:
  "detectIEDs rnd dat (evs, n) 250 = Some (evs, n + length (scan_starts (length dat) 50 25 0))"
  by (simp add: detectIEDs_def scan_loop_fold fold_ied_window)

subsection \<open>The detectors on the sample recording\<close>

lemma starts_ied: "length (scan_starts 751 50 25 0) = 29"
  by (simp add: scan_starts.simps)

lemma starts_rhythmic: "scan_starts 751 750 250 0 = [0]"
  by (simp add: scan_starts.simps)

lemma overlap_detectHFOs: "detectHFOs overlap_samples [] 250 = Some [overlap_hfo]"
proof -
  have "detectHFOs overlap_samples [] 250
          = scan_loop (\<lambda>i. hfo_window 250 25 (slice overlap_samples i (i + 25)) i) 751 25 12 0 []"
    by (simp add: detectHFOs_def len)
  also have "\<dots> = Some (fold (\<lambda>i. hfo_window 250 25 (slice overlap_samples i (i + 25)) i)
                          (scan_starts 751 25 12 0) [])"
    by (rule scan_loop_fold) simp
  also have "\<dots> = Some [overlap_hfo]"
    by (simp only: starts_hfo hfo_fold)
  finally show ?thesis .
qed

lemma overlap_peaks:
  "peaks_from (Suc 0) (slice overlap_samples 0 750) = [100, 120, 140, 160]"
  apply (simp add: overlap_samples_def slice_def)
  apply (simp add: replicate_num)
  done

lemma overlap_peak_to_peak: "peakToPeak (slice overlap_samples 0 750) = 45"
  apply (simp add: overlap_samples_def slice_def)
  apply (simp add: replicate_num peakToPeak_def)
  done

lemma overlap_rhythmic_window:
  "rhythmic_window 250 750 (slice overlap_samples 0 (0 + 750)) 0 [overlap_hfo]
     = [overlap_hfo, overlap_rhythmic]"
  by (simp add: rhythmic_window_def overlap_peaks overlap_peak_to_peak intervals_of_def Let_def
        overlapping_def overlap_hfo_def overlap_rhythmic_def)

lemma overlap_detectRhythmic:
  "detectRhythmicDischarges overlap_samples [overlap_hfo] 250 = Some [overlap_hfo, overlap_rhythmic]"
proof -
  have "detectRhythmicDischarges overlap_samples [overlap_hfo] 250
          = scan_loop (\<lambda>i. rhythmic_window 250 750 (slice overlap_samples i (i + 750)) i)
              751 750 250 0 [overlap_hfo]"
    by (simp add: detectRhythmicDischarges_def len)
  also have "\<dots> = Some (fold (\<lambda>i. rhythmic_window 250 750 (slice overlap_samples i (i + 750)) i)
                          (scan_starts 751 750 250 0) [overlap_hfo])"
    by (rule scan_loop_fold) simp
  also have "\<dots> = Some [overlap_hfo, overlap_rhythmic]"
    by (simp only: starts_rhythmic fold_simps overlap_rhythmic_window)
  finally show ?thesis .
qed

text \<open>
  Claim C1 fails on the code. The test \<open>overlapping\<close> asks whether the start or the end of
  the candidate lies within an accepted event; a candidate that contains an accepted
  event passes. On the 751 samples of \<open>overlap_channel\<close> the HFO detector accepts the
  window from 0.144 s to 0.244 s, the IED detector accepts nothing, and the Rhythmic
  detector then accepts the window from 0 s to 3 s, which contains the HFO event: the
  channel ends with two accepted events whose time ranges intersect.
\<close>

theorem detectors_accept_overlap:
  "detectPatterns (\<lambda>k. 0) [overlap_channel] 0
     = Some ([overlap_channel\<lparr>events := [overlap_hfo, overlap_rhythmic]\<rparr>], 29)
   \<and> intersects overlap_hfo overlap_rhythmic"
proof -
  have "detectChannel (\<lambda>k. 0) overlap_channel 0
          = Some (overlap_channel\<lparr>events := [overlap_hfo, overlap_rhythmic]\<rparr>, 29)"
    by (simp add: detectChannel_def overlap_channel_def overlap_detectHFOs detectIEDs_keeps len
          starts_ied overlap_detectRhythmic)
  then have a: "detectPatterns (\<lambda>k. 0) [overlap_channel] 0
     = Some ([overlap_channel\<lparr>events := [overlap_hfo, overlap_rhythmic]\<rparr>], 29)"
    by simp
  have b: "intersects overlap_hfo overlap_rhythmic"
    by (simp add: intersects_def overlap_hfo_def overlap_rhythmic_def)
  from a b show ?thesis by blast
qed

subsection \<open>What the detectors produce\<close>

text \<open>
  At 250 Hz the three loops have positive steps, so \<open>detectPatterns\<close> returns on every
  recording; every event it adds ends after it starts and carries one of the three
  labels. On channels that start with no events, as the processor builds them, the
  result satisfies the two conditions on events under which the claims about the
  clusterer are proved.
\<close>

lemma window_times: "0 < sampleRate \<Longrightarrow> 0 < windowSize \<Longrightarrow>
    real i / real sampleRate < real (i + windowSize) / real sampleRate"
  by (simp add: divide_strict_right_mono)

lemma hfo_window_ok:
  assumes "0 < sampleRate" and "0 < windowSize" and "list_all event_ok evs"
  shows "list_all event_ok (hfo_window sampleRate windowSize w i evs)"
  using assms window_times [OF assms(1,2), of i]
  by (simp add: hfo_window_def Let_def event_ok_def recognised_def)

lemma rhythmic_window_ok:
  assumes "0 < sampleRate" and "0 < windowSize" and "list_all event_ok evs"
  shows "list_all event_ok (rhythmic_window sampleRate windowSize w i evs)"
  using assms window_times [OF assms(1,2), of i]
  by (simp add: rhythmic_window_def Let_def event_ok_def recognised_def)

lemma fold_ok:
  assumes "\<And>i evs. list_all event_ok evs \<Longrightarrow> list_all event_ok (f i evs)"
  shows "list_all event_ok evs \<Longrightarrow> list_all event_ok (fold f is evs)"
  by (induction "is" arbitrary: evs) (simp_all add: assms)

lemma detectHFOs_250:
  "detectHFOs dat evs 250
     = Some (fold (\<lambda>i. hfo_window 250 25 (slice dat i (i + 25)) i)
               (scan_starts (length dat) 25 12 0) evs)"
  by (simp add: detectHFOs_def scan_loop_fold)

lemma detectRhythmic_250:
  "detectRhythmicDischarges dat evs 250
     = Some (fold (\<lambda>i. rhythmic_window 250 750 (slice dat i (i + 750)) i)
               (scan_starts (length dat) 750 250 0) evs)"
  by (simp add: detectRhythmicDischarges_def scan_loop_fold)

lemma detectChannel_returns:
  "\<exists>evs. detectChannel rnd ch n
           = Some (ch\<lparr>events := evs\<rparr>, n + length (scan_starts (length (data ch)) 50 25 0))
         \<and> (list_all event_ok (events ch) \<longrightarrow> list_all event_ok evs)"
proof -
  let ?e1 = "fold (\<lambda>i. hfo_window 250 25 (slice (data ch) i (i + 25)) i)
               (scan_starts (length (data ch)) 25 12 0) (events ch)"
  let ?e3 = "fold (\<lambda>i. rhythmic_window 250 750 (slice (data ch) i (i + 750)) i)
               (scan_starts (length (data ch)) 750 250 0) ?e1"
  have r: "detectChannel rnd ch n
             = Some (ch\<lparr>events := ?e3\<rparr>, n + length (scan_starts (length (data ch)) 50 25 0))"
    by (simp add: detectChannel_def detectHFOs_250 detectIEDs_keeps detectRhythmic_250)
  have "list_all event_ok ?e3" if ok: "list_all event_ok (events ch)"
  proof -
    have "list_all event_ok ?e1"
      by (rule fold_ok [OF _ ok]) (simp add: hfo_window_ok)
    then show ?thesis
      by (rule fold_ok [rotated]) (simp add: rhythmic_window_ok)
  qed
  then show ?thesis using r by blast
qed

lemma detectPatterns_returns:
  "\<exists>channels' n'. detectPatterns rnd channels n = Some (channels', n')
     \<and> map name channels' = map name channels
     \<and> (list_all (\<lambda>ch. list_all event_ok (events ch)) channels \<longrightarrow>
          list_all (\<lambda>ch. list_all event_ok (events ch)) channels')"
proof (induction channels arbitrary: n)
  case Nil
  then show ?case by simp
next
  case (Cons ch chs)
  obtain evs where c: "detectChannel rnd ch n
           = Some (ch\<lparr>events := evs\<rparr>, n + length (scan_starts (length (data ch)) 50 25 0))"
    and ok: "list_all event_ok (events ch) \<longrightarrow> list_all event_ok evs"
    using detectChannel_returns [of rnd ch n] by blast
  obtain chs' n' where d: "detectPatterns rnd chs (n + length (scan_starts (length (data ch)) 50 25 0))
                             = Some (chs', n')"
    and nm: "map name chs' = map name chs"
    and oks: "list_all (\<lambda>ch. list_all event_ok (events ch)) chs \<longrightarrow>
          list_all (\<lambda>ch. list_all event_ok (events ch)) chs'"
    using Cons.IH by blast
  have "detectPatterns rnd (ch # chs) n = Some (ch\<lparr>events := evs\<rparr> # chs', n')"
    by (simp add: c d)
  then show ?case using nm ok oks by simp
qed

lemma detected_events_well_formed:
  assumes "detectPatterns rnd channels n = Some (channels', n')"
    and "list_all (\<lambda>ch. events ch = []) channels"
  shows "ends_after_starts channels' \<and> labelled_events channels'"
proof -
  have "list_all (\<lambda>ch. list_all event_ok (events ch)) channels"
    using assms(2) by (auto simp: list_all_iff)
  then have "list_all (\<lambda>ch. list_all event_ok (events ch)) channels'"
    using detectPatterns_returns [of rnd channels n] assms(1) by auto
  then show ?thesis
    by (auto simp: ends_after_starts_def labelled_events_def list_all_iff event_ok_def)
qed

end
